theory Spec2Isabelle
  imports Main "HOL-Library.AList"
begin

section \<open>JavaScript values\<close>

text \<open>
  The handlers receive parsed JSON and build plain objects from it. A value is a JSON value
  or a \<open>Date\<close> (the server stamps \<open>new Date()\<close> into metadata and payloads). An
  object is the list of its own properties in property order, with distinct keys; a
  property that is absent reads as \<open>undefined\<close>, which is \<open>None\<close> here. A character
  is one code unit of the string. Numbers are integers: \<open>JNum n\<close> stands for the number
  \<open>n\<close> when \<open>n\<close> is a safe integer (of magnitude below \<open>2\<^sup>5\<^sup>3\<close>), which JavaScript
  holds exactly and prints with all its digits. Fractions and numbers of larger magnitude
  (which \<open>JSON.stringify\<close> may print in exponent form) are not represented;
  \<open>numbers_ok\<close> below says that every number in a value is a safe integer.
\<close>

datatype jsval =
    JNull
  | JBool bool
  | JNum int
  | JStr string
  | JDate nat
  | JArr "jsval list"
  | JObj "(string \<times> jsval) list"

type_synonym jsobj = "(string \<times> jsval) list"

fun numbers_ok :: "jsval \<Rightarrow> bool" where
  "numbers_ok (JNum n) = (- 9007199254740992 < n \<and> n < 9007199254740992)"
| "numbers_ok (JArr xs) = list_all numbers_ok xs"
| "numbers_ok (JObj kvs) = list_all (\<lambda>kv. numbers_ok (snd kv)) kvs"
| "numbers_ok v = True"

text \<open>Truthiness (\<open>!v\<close> is its negation); \<open>undefined\<close> is falsy.\<close>

fun truthy :: "jsval \<Rightarrow> bool" where
  "truthy JNull = False"
| "truthy (JBool b) = b"
| "truthy (JNum n) = (n \<noteq> 0)"
| "truthy (JStr s) = (s \<noteq> [])"
| "truthy (JDate t) = True"
| "truthy (JArr xs) = True"
| "truthy (JObj kvs) = True"

definition truthy_opt :: "jsval option \<Rightarrow> bool" where
  "truthy_opt v = (case v of None \<Rightarrow> False | Some x \<Rightarrow> truthy x)"

text \<open>\<open>typeof v === 'object'\<close> for a truthy value, \<open>typeof v === 'string'\<close>, \<open>Array.isArray\<close>.\<close>

fun is_object :: "jsval \<Rightarrow> bool" where
  "is_object (JArr xs) = True"
| "is_object (JObj kvs) = True"
| "is_object (JDate t) = True"
| "is_object v = False"

fun is_string :: "jsval \<Rightarrow> bool" where
  "is_string (JStr s) = True"
| "is_string v = False"

fun isArray :: "jsval \<Rightarrow> bool" where
  "isArray (JArr xs) = True"
| "isArray v = False"

text \<open>
  Reading one of the named properties the handlers read (\<open>id\<close>, \<open>type\<close>, \<open>target\<close>,
  \<open>content\<close>, \<open>username\<close>, \<open>following\<close>, \<open>profile\<close>): only a plain object has them.
\<close>

fun get_prop :: "jsval \<Rightarrow> string \<Rightarrow> jsval option" where
  "get_prop (JObj kvs) k = map_of kvs k"
| "get_prop v k = None"

text \<open>
  Strict equality \<open>===\<close>, which \<open>Array.prototype.includes\<close> agrees with on these values.
  Primitives are compared by value. Objects are compared by reference, and the two sides
  of every comparison in the handlers come from different messages, so two objects are
  never equal.
\<close>

fun strict_eq :: "jsval \<Rightarrow> jsval \<Rightarrow> bool" where
  "strict_eq JNull JNull = True"
| "strict_eq (JBool a) (JBool b) = (a = b)"
| "strict_eq (JNum a) (JNum b) = (a = b)"
| "strict_eq (JStr a) (JStr b) = (a = b)"
| "strict_eq a b = False"

definition array_includes :: "jsval list \<Rightarrow> jsval \<Rightarrow> bool" where
  "array_includes xs v = list_ex (\<lambda>x. strict_eq x v) xs"

text \<open>
  The conversion to text that a template literal \<open>`${v}`\<close> makes of a value succeeds,
  or else it throws a \<open>TypeError\<close>. A plain object is converted by the \<open>toString\<close> it
  inherits, unless it has a property \<open>toString\<close> of its own: a property that came with
  parsed JSON is no function, the inherited \<open>valueOf\<close> returns the object itself and one of
  its own is no function either, so no primitive is obtained and the conversion throws.
  An array is converted by joining the texts of its elements. Every other value has a text.
\<close>

fun textable :: "jsval \<Rightarrow> bool" where
  "textable (JArr xs) = list_all textable xs"
| "textable (JObj kvs) = (map_of kvs ''toString'' = None)"
| "textable v = True"

subsection \<open>Decimal and ISO text\<close>

definition digit_char :: "nat \<Rightarrow> char" where
  "digit_char d = char_of (48 + d)"

function show_nat :: "nat \<Rightarrow> string" where
  "show_nat n = (if n < 10 then [digit_char n] else show_nat (n div 10) @ [digit_char (n mod 10)])"
  by pat_completeness auto
termination
  by (relation "measure (\<lambda>n. n)") auto

declare show_nat.simps [simp del]

definition show_int :: "int \<Rightarrow> string" where
  "show_int i = (if i < 0 then CHR ''-'' # show_nat (nat (- i)) else show_nat (nat i))"

text \<open>Left padding with zeros to a width, as the fields of an ISO date are.\<close>

definition pad :: "nat \<Rightarrow> nat \<Rightarrow> string" where
  "pad w n = (let s = show_nat n in replicate (w - length s) CHR ''0'' @ s)"

text \<open>
  \<open>Date.prototype.toISOString\<close> of a time in milliseconds since the epoch (the civil date
  from the day number, proleptic Gregorian calendar, UTC).
\<close>

definition toISOString :: "nat \<Rightarrow> string" where
  "toISOString t =
     (let days = t div 86400000;
          ms = t mod 86400000;
          z = days + 719468;
          era = z div 146097;
          doe = z mod 146097;
          yoe = (doe - doe div 1460 + doe div 36524 - doe div 146096) div 365;
          doy = doe - (365 * yoe + yoe div 4 - yoe div 100);
          mp = (5 * doy + 2) div 153;
          d = doy - (153 * mp + 2) div 5 + 1;
          m = (if mp < 10 then mp + 3 else mp - 9);
          y = yoe + era * 400 + (if m \<le> 2 then 1 else 0)
      in (if y \<le> 9999 then pad 4 y else CHR ''+'' # pad 6 y) @ ''-'' @ pad 2 m @ ''-'' @ pad 2 d
         @ ''T'' @ pad 2 (ms div 3600000) @ '':'' @ pad 2 (ms div 60000 mod 60) @ '':''
         @ pad 2 (ms div 1000 mod 60) @ ''.'' @ pad 3 (ms mod 1000) @ ''Z'')"

subsection \<open>\<open>JSON.stringify\<close>\<close>

definition hex_char :: "nat \<Rightarrow> char" where
  "hex_char d = (if d < 10 then char_of (48 + d) else char_of (87 + d))"

text \<open>The escapes of a string literal in JSON text: the quote, the backslash, control characters.\<close>

definition escape_char :: "char \<Rightarrow> string" where
  "escape_char c =
     (let n = (of_char c :: nat) in
      if n = 34 then [CHR 0x5C, CHR 0x22]
      else if n = 92 then [CHR 0x5C, CHR 0x5C]
      else if n = 8 then [CHR 0x5C, CHR ''b'']
      else if n = 12 then [CHR 0x5C, CHR ''f'']
      else if n = 10 then [CHR 0x5C, CHR ''n'']
      else if n = 13 then [CHR 0x5C, CHR ''r'']
      else if n = 9 then [CHR 0x5C, CHR ''t'']
      else if n < 32 then [CHR 0x5C, CHR ''u'', CHR ''0'', CHR ''0'', hex_char (n div 16), hex_char (n mod 16)]
      else [c])"

definition quote :: "string \<Rightarrow> string" where
  "quote s = CHR 0x22 # concat (map escape_char s) @ [CHR 0x22]"

fun join :: "string \<Rightarrow> string list \<Rightarrow> string" where
  "join sep [] = []"
| "join sep [x] = x"
| "join sep (x # y # ys) = x @ sep @ join sep (y # ys)"

text \<open>
  \<open>JSON.stringify\<close> of a value whose numbers are safe integers (\<open>numbers_ok\<close>): such a
  number is printed in full. The properties of an object are printed in property order.
\<close>

fun stringify :: "jsval \<Rightarrow> string" where
  "stringify JNull = ''null''"
| "stringify (JBool b) = (if b then ''true'' else ''false'')"
| "stringify (JNum n) = show_int n"
| "stringify (JStr s) = quote s"
| "stringify (JDate t) = quote (toISOString t)"
| "stringify (JArr xs) = ''['' @ join '','' (map stringify xs) @ '']''"
| "stringify (JObj kvs) =
     ''{'' @ join '','' (map (\<lambda>kv. quote (fst kv) @ '':'' @ stringify (snd kv)) kvs) @ ''}''"

text \<open>
  The own enumerable properties that a spread \<open>{...v}\<close> copies and \<open>Object.keys(v)\<close>
  lists, for a value that passed \<open>typeof v === 'object'\<close>: the properties of a plain
  object, the indices of an array, none for a \<open>Date\<close>.
\<close>

fun own_entries :: "jsval \<Rightarrow> jsobj" where
  "own_entries (JObj kvs) = kvs"
| "own_entries (JArr xs) = zip (map show_nat [0..<length xs]) xs"
| "own_entries v = []"

definition keys_of :: "jsval \<Rightarrow> string list" where
  "keys_of v = map fst (own_entries v)"

text \<open>
  Property order: the keys that are array indices (the decimal text, without leading
  zeros, of an integer below \<open>2\<^sup>3\<^sup>2 - 1\<close>) come first, in ascending numeric order, and
  after them the other keys in the order in which they were created.
\<close>

definition index_value :: "string \<Rightarrow> nat" where
  "index_value k = foldl (\<lambda>n c. 10 * n + (of_char c - 48)) 0 k"

definition is_index :: "string \<Rightarrow> bool" where
  "is_index k \<longleftrightarrow>
     k \<noteq> [] \<and> list_all (\<lambda>c. 48 \<le> (of_char c :: nat) \<and> (of_char c :: nat) \<le> 57) k \<and>
     (k = ''0'' \<or> hd k \<noteq> CHR ''0'') \<and> index_value k < 4294967295"

text \<open>A new index key goes before the first key that is no index or is a greater index.\<close>

fun insert_index :: "string \<Rightarrow> jsval \<Rightarrow> jsobj \<Rightarrow> jsobj" where
  "insert_index k v [] = [(k, v)]"
| "insert_index k v (e # es) =
     (if is_index (fst e) \<and> index_value (fst e) < index_value k
      then e # insert_index k v es else (k, v) # e # es)"

text \<open>
  The assignment of a property: an existing key keeps its place and takes the new value,
  a new key takes its place in property order (\<open>AList.update\<close> puts a new key at the end).
\<close>

definition set_prop :: "string \<Rightarrow> jsval \<Rightarrow> jsobj \<Rightarrow> jsobj" where
  "set_prop k v kvs =
     (if is_index k \<and> map_of kvs k = None then insert_index k v kvs else AList.update k v kvs)"

text \<open>\<open>{...a, ...b}\<close>, for \<open>a\<close> in property order: every property of \<open>b\<close> is assigned in turn.\<close>

definition spread :: "jsobj \<Rightarrow> jsobj \<Rightarrow> jsobj" where
  "spread a b = fold (\<lambda>kv. set_prop (fst kv) (snd kv)) b a"

text \<open>A list of keys is in property order: the indices first, ascending, then the other keys.\<close>

definition property_order :: "string list \<Rightarrow> bool" where
  "property_order ks \<longleftrightarrow>
     sorted_wrt (\<lambda>a b. index_value a \<le> index_value b) (takeWhile is_index ks) \<and>
     list_all (\<lambda>k. \<not> is_index k) (dropWhile is_index ks)"

section \<open>Configuration\<close>

text \<open>
  The fields of the configuration that the hub reads. The durations (\<open>interval\<close>,
  \<open>timeout\<close>, \<open>customSettings.typingTimeout\<close>) only say when a timer fires; here the
  firing of a timer is an event of its own, at any moment while the timer is pending.
  Logging is as in the default configuration: \<open>logging.logClientEvents\<close> is false, so the
  log lines under that switch do not run.
\<close>

record config =
  heartbeat_enabled :: bool
  heartbeat_interval :: nat
  heartbeat_timeout :: nat
  maxMissed :: nat
  maxMessageSize :: nat
  maxFollowerNotifications :: nat
  throttleMs :: nat
  maxContentSize :: nat
  customSettings :: "jsobj option"

section \<open>The client registry\<close>

type_synonym sid = string

text \<open>
  \<open>ClientData\<close>. The \<open>socket\<close> field is a reference to the connection; a connection is
  known by its id, so the field holds that id.
\<close>

record ClientData =
  id_client :: sid
  socket :: sid
  connectTime :: nat
  metadata :: "jsobj option"
  lastHeartbeat :: "nat option"
  heartbeatMissed :: nat
  heartbeatPending :: bool

text \<open>\<open>Partial<ClientData>\<close>: \<open>None\<close> is a key that the partial object does not have.\<close>

record ClientPartial =
  part_id :: "sid option"
  part_socket :: "sid option"
  part_connectTime :: "nat option"
  part_metadata :: "jsobj option option"
  part_lastHeartbeat :: "nat option option"
  part_heartbeatMissed :: "nat option"
  part_heartbeatPending :: "bool option"

definition no_fields :: ClientPartial where
  "no_fields = \<lparr>part_id = None, part_socket = None, part_connectTime = None, part_metadata = None,
     part_lastHeartbeat = None, part_heartbeatMissed = None, part_heartbeatPending = None\<rparr>"

text \<open>\<open>{ ...client, ...data }\<close>\<close>

definition spread_client :: "ClientData \<Rightarrow> ClientPartial \<Rightarrow> ClientData" where
  "spread_client c d =
     \<lparr>id_client = (case part_id d of None \<Rightarrow> id_client c | Some v \<Rightarrow> v),
      socket = (case part_socket d of None \<Rightarrow> socket c | Some v \<Rightarrow> v),
      connectTime = (case part_connectTime d of None \<Rightarrow> connectTime c | Some v \<Rightarrow> v),
      metadata = (case part_metadata d of None \<Rightarrow> metadata c | Some v \<Rightarrow> v),
      lastHeartbeat = (case part_lastHeartbeat d of None \<Rightarrow> lastHeartbeat c | Some v \<Rightarrow> v),
      heartbeatMissed = (case part_heartbeatMissed d of None \<Rightarrow> heartbeatMissed c | Some v \<Rightarrow> v),
      heartbeatPending = (case part_heartbeatPending d of None \<Rightarrow> heartbeatPending c | Some v \<Rightarrow> v)\<rparr>"

text \<open>
  The state of the hub. Client records are objects that are shared by reference: the
  registry, the heartbeat timers and the typing timers all hold references to them,
  \<open>updateClient\<close> stores a fresh object, and the heartbeat code mutates an object in
  place. So the records live in a store, \<open>heap\<close>, where the address of an object is its
  index, and the other components hold addresses.
  \<^item> \<open>clients\<close> is the \<open>Map\<close> of the \<open>ClientManager\<close>, in insertion order.
  \<^item> \<open>sockets\<close> are the connections that the transport holds open.
  \<^item> \<open>sent\<close> lists every call of \<open>emit\<close>, oldest first: connection, event name, payload.
  \<^item> \<open>closed\<close> lists the connections closed by \<open>socket.disconnect(true)\<close>.
  \<^item> \<open>beatTimers\<close> are the pending heartbeat deadlines, each with the record it captured.
  \<^item> \<open>typingTimeouts\<close> are the pending typing auto-stops, keyed by the sending
    connection and the target name (one \<open>Map\<close> by target in each connection's closure),
    each with what the callback captured: the target record, the sender's username and
    the sender's record.
  \<^item> \<open>sendIntervals\<close> are the running throttled fan-outs: the recipients, the index
    of the next one, the event and the payload.
  \<^item> \<open>totalConnections\<close> and \<open>activeConnections\<close> are the counters of the connection handler.
  \<^item> \<open>uncaught\<close> says that a handler threw: nothing catches it, and the process ends.
\<close>

record hub =
  heap :: "ClientData list"
  clients :: "(sid \<times> nat) list"
  sockets :: "sid list"
  sent :: "(sid \<times> string \<times> jsval) list"
  closed :: "sid list"
  beatTimers :: "nat list"
  typingTimeouts :: "((sid \<times> string) \<times> (nat \<times> jsval \<times> nat)) list"
  sendIntervals :: "(nat list \<times> nat \<times> string \<times> jsval) list"
  totalConnections :: nat
  activeConnections :: int
  uncaught :: bool

definition initial :: hub where
  "initial = \<lparr>heap = [], clients = [], sockets = [], sent = [], closed = [], beatTimers = [],
     typingTimeouts = [], sendIntervals = [], totalConnections = 0, activeConnections = 0,
     uncaught = False\<rparr>"

text \<open>The record behind a reference, and an assignment to the fields of that record.\<close>

definition deref :: "hub \<Rightarrow> nat \<Rightarrow> ClientData" where
  "deref st a = heap st ! a"

definition assign :: "nat \<Rightarrow> (ClientData \<Rightarrow> ClientData) \<Rightarrow> hub \<Rightarrow> hub" where
  "assign a f st = st\<lparr>heap := (heap st)[a := f (heap st ! a)]\<rparr>"

text \<open>\<open>socket.emit(event, data)\<close> on a connection, and \<open>io.emit\<close> to every open connection.\<close>

definition emit :: "sid \<Rightarrow> string \<Rightarrow> jsval \<Rightarrow> hub \<Rightarrow> hub" where
  "emit s ev p st = st\<lparr>sent := sent st @ [(s, ev, p)]\<rparr>"

definition io_emit :: "string \<Rightarrow> jsval \<Rightarrow> hub \<Rightarrow> hub" where
  "io_emit ev p st = fold (\<lambda>s. emit s ev p) (sockets st) st"

subsection \<open>Operations of the \<open>ClientManager\<close>\<close>

definition addClient :: "nat \<Rightarrow> sid \<Rightarrow> jsobj option \<Rightarrow> hub \<Rightarrow> hub" where
  "addClient now s md st =
     st\<lparr>heap := heap st @
          [\<lparr>id_client = s, socket = s, connectTime = now, metadata = md,
            lastHeartbeat = Some now, heartbeatMissed = 0, heartbeatPending = False\<rparr>],
        clients := AList.update s (length (heap st)) (clients st)\<rparr>"

definition getClient :: "hub \<Rightarrow> sid \<Rightarrow> nat option" where
  "getClient st i = map_of (clients st) i"

definition updateClient :: "sid \<Rightarrow> ClientPartial \<Rightarrow> hub \<Rightarrow> hub \<times> bool" where
  "updateClient i d st =
     (case getClient st i of
        None \<Rightarrow> (st, False)
      | Some a \<Rightarrow>
          (st\<lparr>heap := heap st @ [spread_client (deref st a) d],
              clients := AList.update i (length (heap st)) (clients st)\<rparr>, True))"

definition removeClient :: "sid \<Rightarrow> hub \<Rightarrow> hub \<times> bool" where
  "removeClient i st =
     (st\<lparr>clients := AList.delete i (clients st)\<rparr>, i \<in> fst ` set (clients st))"

definition getAllClients :: "hub \<Rightarrow> nat list" where
  "getAllClients st = map snd (clients st)"

text \<open>\<open>client.metadata?.username\<close> and the like: a property of the metadata, if there is any.\<close>

definition meta_prop :: "ClientData \<Rightarrow> string \<Rightarrow> jsval option" where
  "meta_prop c k = (case metadata c of None \<Rightarrow> None | Some md \<Rightarrow> map_of md k)"

definition has_username :: "hub \<Rightarrow> jsval \<Rightarrow> nat \<Rightarrow> bool" where
  "has_username st u a =
     (case meta_prop (deref st a) ''username'' of None \<Rightarrow> False | Some v \<Rightarrow> strict_eq v u)"

definition getClientByUsername :: "hub \<Rightarrow> jsval \<Rightarrow> nat option" where
  "getClientByUsername st u = find (has_username st u) (map snd (clients st))"

definition findClients :: "hub \<Rightarrow> (ClientData \<Rightarrow> bool) \<Rightarrow> nat list" where
  "findClients st criteria = filter (\<lambda>a. criteria (deref st a)) (map snd (clients st))"

definition follows :: "jsval \<Rightarrow> ClientData \<Rightarrow> bool" where
  "follows u c =
     (case meta_prop c ''following'' of Some (JArr xs) \<Rightarrow> array_includes xs u | _ \<Rightarrow> False)"

definition findFollowers :: "hub \<Rightarrow> jsval \<Rightarrow> nat list" where
  "findFollowers st u = findClients st (follows u)"

section \<open>Connections\<close>

definition stats :: "nat \<Rightarrow> hub \<Rightarrow> jsval" where
  "stats now st =
     JObj [(''activeConnections'', JNum (activeConnections st)),
           (''totalConnections'', JNum (int (totalConnections st))),
           (''timestamp'', JDate now)]"

text \<open>The handler of \<open>connection\<close>; the new connection is already open when it runs.\<close>

definition onConnection :: "nat \<Rightarrow> sid \<Rightarrow> hub \<Rightarrow> hub" where
  "onConnection now s st =
     (let st1 = st\<lparr>sockets := sockets st @ [s],
                   totalConnections := totalConnections st + 1,
                   activeConnections := activeConnections st + 1\<rparr>;
          st2 = addClient now s None st1
      in io_emit ''system:stats'' (stats now st2) st2)"

text \<open>
  The \<open>disconnect\<close> listeners of a connection, in the order of their registration: the one
  of the typing handlers clears every typing timer of the connection, then the one of
  the connection handler removes the client and emits the statistics.
\<close>

definition clearTypingTimeouts :: "sid \<Rightarrow> hub \<Rightarrow> hub" where
  "clearTypingTimeouts s st =
     st\<lparr>typingTimeouts := filter (\<lambda>e. fst (fst e) \<noteq> s) (typingTimeouts st)\<rparr>"

definition onDisconnect :: "nat \<Rightarrow> sid \<Rightarrow> hub \<Rightarrow> hub" where
  "onDisconnect now s st =
     (let st1 = clearTypingTimeouts s st;
          st2 = st1\<lparr>activeConnections := activeConnections st1 - 1\<rparr>;
          st3 = fst (removeClient s st2)
      in io_emit ''system:stats'' (stats now st3) st3)"

text \<open>
  A connection closes: it leaves the open connections, then its listeners run.
  \<open>socket.disconnect(true)\<close> does nothing on a connection that is not open; on an open
  one it closes it, and the listeners run before it returns.
\<close>

definition socket_close :: "nat \<Rightarrow> sid \<Rightarrow> hub \<Rightarrow> hub" where
  "socket_close now s st =
     (if s \<in> set (sockets st) then onDisconnect now s (st\<lparr>sockets := removeAll s (sockets st)\<rparr>)
      else st)"

definition socket_disconnect :: "nat \<Rightarrow> sid \<Rightarrow> hub \<Rightarrow> hub" where
  "socket_disconnect now s st =
     (if s \<in> set (sockets st) then socket_close now s (st\<lparr>closed := closed st @ [s]\<rparr>) else st)"

section \<open>The heartbeat monitor\<close>

definition disconnectClient :: "nat \<Rightarrow> sid \<Rightarrow> hub \<Rightarrow> hub" where
  "disconnectClient now i st =
     (case getClient st i of
        None \<Rightarrow> st
      | Some a \<Rightarrow> fst (removeClient i (socket_disconnect now (socket (deref st a)) st)))"

definition missed_one :: "ClientData \<Rightarrow> ClientData" where
  "missed_one c = c\<lparr>heartbeatMissed := heartbeatMissed c + 1\<rparr>"

text \<open>
  \<open>sendHeartbeat\<close>: the beat id is the decimal text of \<open>Date.now()\<close>. The deadline timer
  that it starts keeps the reference \<open>client\<close>.
\<close>

definition sendHeartbeat :: "nat \<Rightarrow> nat \<Rightarrow> hub \<Rightarrow> hub" where
  "sendHeartbeat now a st =
     (let st1 = assign a (\<lambda>c. c\<lparr>heartbeatPending := True\<rparr>) st;
          st2 = emit (socket (deref st1 a)) ''system:heartbeat''
                  (JObj [(''id'', JStr (show_nat now)), (''timestamp'', JDate now)]) st1
      in st2\<lparr>beatTimers := beatTimers st2 @ [a]\<rparr>)"

text \<open>The callback of the deadline timer of \<open>sendHeartbeat\<close>, for the record it captured.\<close>

definition heartbeatDeadline :: "config \<Rightarrow> nat \<Rightarrow> nat \<Rightarrow> hub \<Rightarrow> hub" where
  "heartbeatDeadline cfg now a st =
     (if heartbeatPending (deref st a) then
        (let st1 = assign a missed_one st in
         if heartbeatMissed (deref st1 a) \<ge> maxMissed cfg
         then disconnectClient now (id_client (deref st1 a)) st1
         else st1)
      else st)"

text \<open>The body of the \<open>forEach\<close> of \<open>checkAllClientHeartbeats\<close>, and the whole check.\<close>

definition checkClientHeartbeat :: "config \<Rightarrow> nat \<Rightarrow> nat \<Rightarrow> hub \<Rightarrow> hub" where
  "checkClientHeartbeat cfg now a st =
     (if heartbeatPending (deref st a) then
        (let st1 = assign a missed_one st in
         if heartbeatMissed (deref st1 a) \<ge> maxMissed cfg
         then disconnectClient now (id_client (deref st1 a)) st1
         else sendHeartbeat now a st1)
      else sendHeartbeat now a st)"

definition checkAllClientHeartbeats :: "config \<Rightarrow> nat \<Rightarrow> hub \<Rightarrow> hub" where
  "checkAllClientHeartbeats cfg now st =
     fold (checkClientHeartbeat cfg now) (map snd (clients st)) st"

definition recorded :: "config \<Rightarrow> nat \<Rightarrow> ClientData \<Rightarrow> ClientData" where
  "recorded cfg now c =
     (let c1 = c\<lparr>lastHeartbeat := Some now, heartbeatPending := False\<rparr> in
      if heartbeatMissed c1 > 0 \<and> heartbeatMissed c1 < maxMissed cfg
      then c1\<lparr>heartbeatMissed := 0\<rparr> else c1)"

definition recordHeartbeat :: "config \<Rightarrow> nat \<Rightarrow> sid \<Rightarrow> hub \<Rightarrow> hub \<times> bool" where
  "recordHeartbeat cfg now i st =
     (case getClient st i of
        None \<Rightarrow> (st, False)
      | Some a \<Rightarrow> (assign a (recorded cfg now) st, True))"

text \<open>
  The two listeners of \<open>system:heartbeat-ack\<close> on a connection, in the order of their
  registration: the one of the system handlers, which wants a payload with a truthy
  \<open>id\<close>, and the one of the connection set-up, which takes any payload.
\<close>

definition heartbeatAck_system :: "config \<Rightarrow> nat \<Rightarrow> sid \<Rightarrow> jsval option \<Rightarrow> hub \<Rightarrow> hub" where
  "heartbeatAck_system cfg now s data st =
     (case data of
        None \<Rightarrow> st
      | Some d \<Rightarrow>
          if \<not> truthy d \<or> \<not> truthy_opt (get_prop d ''id'') then st
          else fst (recordHeartbeat cfg now s st))"

definition heartbeatAck_setup :: "config \<Rightarrow> nat \<Rightarrow> sid \<Rightarrow> jsval option \<Rightarrow> hub \<Rightarrow> hub" where
  "heartbeatAck_setup cfg now s data st = fst (recordHeartbeat cfg now s st)"

definition heartbeatAck :: "config \<Rightarrow> nat \<Rightarrow> sid \<Rightarrow> jsval option \<Rightarrow> hub \<Rightarrow> hub" where
  "heartbeatAck cfg now s data st =
     heartbeatAck_setup cfg now s data (heartbeatAck_system cfg now s data st)"

section \<open>Message handlers\<close>

text \<open>
  A log line that puts a value that came from a client into a template literal. What is
  printed is not part of the state; the line matters when the conversion to text throws:
  nothing catches the exception, and the rest of the handler does not run.
\<close>

definition logged :: "jsval \<Rightarrow> hub \<Rightarrow> hub" where
  "logged v st = (if textable v then st else st\<lparr>uncaught := True\<rparr>)"

definition error_event :: "string \<Rightarrow> string \<Rightarrow> jsval" where
  "error_event code message = JObj [(''code'', JStr code), (''message'', JStr message)]"

text \<open>\<open>v || w\<close> for a property that may be absent.\<close>

definition or_else :: "jsval option \<Rightarrow> jsval \<Rightarrow> jsval" where
  "or_else v w = (case v of None \<Rightarrow> w | Some x \<Rightarrow> if truthy x then x else w)"

text \<open>The \<open>sender\<close> object that the handlers put into what they deliver.\<close>

definition sender_of :: "sid \<Rightarrow> jsval \<Rightarrow> ClientData \<Rightarrow> jsval" where
  "sender_of s username senderInfo =
     JObj [(''id'', JStr s), (''username'', username),
           (''profile'', or_else (meta_prop senderInfo ''profile'') (JObj []))]"

subsection \<open>\<open>system:setData\<close>\<close>

text \<open>
  \<open>handleFollowingUpdate\<close>. The old list is \<open>currentMetadata.following || []\<close>, which
  nothing has checked to be an array. On a value that is no array, the call of
  \<open>includes\<close> or else the call of \<open>filter\<close> is a call of something that is no function:
  the handler throws before it notifies anyone.
\<close>

definition followed_event :: "nat \<Rightarrow> sid \<Rightarrow> hub \<Rightarrow> jsval" where
  "followed_event now s st =
     JObj [(''by'', JStr s),
           (''username'',
              or_else (case getClient st s of None \<Rightarrow> None
                       | Some a \<Rightarrow> meta_prop (deref st a) ''username'') (JStr ''Anonymous'')),
           (''timestamp'', JDate now)]"

definition notifyFollowed :: "nat \<Rightarrow> sid \<Rightarrow> jsval \<Rightarrow> hub \<Rightarrow> hub" where
  "notifyFollowed now s username st =
     (case getClientByUsername st username of
        None \<Rightarrow> st
      | Some t \<Rightarrow> emit (socket (deref st t)) ''system:followed'' (followed_event now s st) st)"

definition handleFollowingUpdate :: "nat \<Rightarrow> sid \<Rightarrow> jsval list \<Rightarrow> jsval \<Rightarrow> hub \<Rightarrow> hub" where
  "handleFollowingUpdate now s newFollowing oldFollowing st =
     (case oldFollowing of
        JArr old \<Rightarrow>
          (let newlyFollowed = filter (\<lambda>user. \<not> array_includes old user) newFollowing
           in fold (notifyFollowed now s) newlyFollowed st)
      | _ \<Rightarrow> st\<lparr>uncaught := True\<rparr>)"

definition currentMetadata :: "hub \<Rightarrow> sid \<Rightarrow> jsobj" where
  "currentMetadata st s =
     (case getClient st s of
        None \<Rightarrow> []
      | Some a \<Rightarrow> (case metadata (deref st a) of None \<Rightarrow> [] | Some md \<Rightarrow> md))"

definition updatedMetadata :: "nat \<Rightarrow> jsobj \<Rightarrow> jsval \<Rightarrow> jsobj" where
  "updatedMetadata now current d =
     set_prop ''lastUpdated'' (JDate now) (spread current (own_entries d))"

definition dataSet_event :: "nat \<Rightarrow> jsval \<Rightarrow> jsval" where
  "dataSet_event now d =
     JObj [(''success'', JBool True), (''updatedFields'', JArr (map JStr (keys_of d))),
           (''timestamp'', JDate now)]"

text \<open>
  The handler of \<open>system:setData\<close>. After it has stored the merged metadata it logs a
  truthy \<open>username\<close> of the patch in a template literal, before it acknowledges.
\<close>

definition too_large_message :: "nat \<Rightarrow> nat \<Rightarrow> string" where
  "too_large_message dataSize limit =
     ''Data size ('' @ show_nat dataSize @ '' bytes) exceeds maximum allowed size (''
       @ show_nat limit @ '' bytes)''"

definition setData :: "config \<Rightarrow> nat \<Rightarrow> sid \<Rightarrow> jsval option \<Rightarrow> hub \<Rightarrow> hub" where
  "setData cfg now s data st =
     (case data of
        None \<Rightarrow> emit s ''system:error''
                 (error_event ''INVALID_FORMAT'' ''Invalid data format - expected an object'') st
      | Some d \<Rightarrow>
          if \<not> truthy d \<or> \<not> is_object d then
            emit s ''system:error''
              (error_event ''INVALID_FORMAT'' ''Invalid data format - expected an object'') st
          else if length (stringify d) > maxMessageSize cfg then
            emit s ''system:error''
              (error_event ''PAYLOAD_TOO_LARGE''
                 (too_large_message (length (stringify d)) (maxMessageSize cfg))) st
          else
            (let current = currentMetadata st s;
                 st1 = fst (updateClient s
                         (no_fields\<lparr>part_metadata := Some (Some (updatedMetadata now current d))\<rparr>) st)
             in if truthy_opt (get_prop d ''username'') \<and>
                   \<not> textable (or_else (get_prop d ''username'') JNull)
                then st1\<lparr>uncaught := True\<rparr>
                else
                  (let st2 = emit s ''system:dataSet'' (dataSet_event now d) st1
                   in (case get_prop d ''following'' of
                         Some (JArr newFollowing) \<Rightarrow>
                           handleFollowingUpdate now s newFollowing
                             (or_else (map_of current ''following'') (JArr [])) st2
                       | _ \<Rightarrow> st2))))"

subsection \<open>\<open>system:notification\<close>\<close>

definition isValidNotification :: "jsval option \<Rightarrow> bool" where
  "isValidNotification data =
     (case data of
        None \<Rightarrow> False
      | Some d \<Rightarrow>
          if \<not> truthy d \<or> \<not> is_object d then False
          else if \<not> truthy_opt (get_prop d ''type'') \<or> \<not> is_string (or_else (get_prop d ''type'') JNull)
          then False
          else if \<not> truthy_opt (get_prop d ''content'') then False
          else True)"

text \<open>
  \<open>broadcastToFollowers\<close>. Without throttling every recipient is sent to at once. With
  throttling an interval timer is started, which sends to one recipient at each of its
  ticks, and the function returns at once. The warning that is logged when the list is
  cut puts the username into a template literal; the list is not empty then, so the
  username is strictly equal to an entry of a \<open>following\<close> list, which makes it a
  primitive value, and its conversion to text does not throw. The handler logs the
  username once more after it has acknowledged.
\<close>

definition targetFollowers :: "config \<Rightarrow> hub \<Rightarrow> jsval \<Rightarrow> nat list" where
  "targetFollowers cfg st username =
     (let followers = findFollowers st username in
      if length followers > maxFollowerNotifications cfg
      then take (maxFollowerNotifications cfg) followers else followers)"

definition broadcastToFollowers ::
  "config \<Rightarrow> jsval \<Rightarrow> string \<Rightarrow> jsval \<Rightarrow> hub \<Rightarrow> hub \<times> nat" where
  "broadcastToFollowers cfg username ev p st =
     (let targets = targetFollowers cfg st username in
      if throttleMs cfg > 0 \<and> length targets > 10
      then (st\<lparr>sendIntervals := sendIntervals st @ [(targets, 0, ev, p)]\<rparr>, length targets)
      else (fold (\<lambda>follower st'. emit (socket (deref st' follower)) ev p st') targets st,
            length targets))"

text \<open>One tick of the interval timer of a throttled fan-out, the \<open>j\<close>-th of those running.\<close>

definition sendIntervalTick :: "nat \<Rightarrow> hub \<Rightarrow> hub" where
  "sendIntervalTick j st =
     (if j < length (sendIntervals st) then
        (case sendIntervals st ! j of (targets, index, ev, p) \<Rightarrow>
           if index < length targets
           then (emit (socket (deref st (targets ! index))) ev p st)
                  \<lparr>sendIntervals := (sendIntervals st)[j := (targets, index + 1, ev, p)]\<rparr>
           else st\<lparr>sendIntervals := take j (sendIntervals st) @ drop (Suc j) (sendIntervals st)\<rparr>)
      else st)"

definition content_too_large_message :: "nat \<Rightarrow> nat \<Rightarrow> string" where
  "content_too_large_message contentSize limit =
     ''Notification content size ('' @ show_nat contentSize
       @ '' bytes) exceeds maximum allowed size ('' @ show_nat limit @ '' bytes)''"

definition notification_event :: "nat \<Rightarrow> sid \<Rightarrow> jsval \<Rightarrow> ClientData \<Rightarrow> jsval \<Rightarrow> jsval" where
  "notification_event now s username senderInfo d =
     JObj (spread (own_entries d)
             [(''sender'', sender_of s username senderInfo), (''timestamp'', JDate now)])"

definition notificationSent_event :: "nat \<Rightarrow> nat \<Rightarrow> jsval" where
  "notificationSent_event now sentCount =
     JObj [(''success'', JBool True), (''recipientCount'', JNum (int sentCount)),
           (''timestamp'', JDate now)]"

definition notification :: "config \<Rightarrow> nat \<Rightarrow> sid \<Rightarrow> jsval option \<Rightarrow> hub \<Rightarrow> hub" where
  "notification cfg now s data st =
     (if \<not> isValidNotification data then
        emit s ''system:error'' (error_event ''INVALID_FORMAT'' ''Invalid notification format'') st
      else
        (case data of
           None \<Rightarrow> st
         | Some d \<Rightarrow>
             (let contentSize = length (stringify (or_else (get_prop d ''content'') JNull)) in
              if contentSize > maxContentSize cfg then
                emit s ''system:error''
                  (error_event ''CONTENT_TOO_LARGE''
                     (content_too_large_message contentSize (maxContentSize cfg))) st
              else
                (case getClient st s of
                   None \<Rightarrow>
                     emit s ''system:error''
                       (error_event ''NO_USERNAME''
                          ''You must set a username with system:setData before sending notifications'') st
                 | Some a \<Rightarrow>
                     (case meta_prop (deref st a) ''username'' of
                        None \<Rightarrow>
                          emit s ''system:error''
                            (error_event ''NO_USERNAME''
                               ''You must set a username with system:setData before sending notifications'') st
                      | Some username \<Rightarrow>
                          if \<not> truthy username then
                            emit s ''system:error''
                              (error_event ''NO_USERNAME''
                                 ''You must set a username with system:setData before sending notifications'') st
                          else
                            (let r = broadcastToFollowers cfg username ''system:notification''
                                       (notification_event now s username (deref st a) d) st
                             in logged username
                                  (emit s ''system:notificationSent''
                                     (notificationSent_event now (snd r)) (fst r))))))))"

subsection \<open>\<open>system:direct\<close>\<close>

definition isValidDirectMessage :: "jsval option \<Rightarrow> bool" where
  "isValidDirectMessage data =
     (case data of
        None \<Rightarrow> False
      | Some d \<Rightarrow>
          if \<not> truthy d \<or> \<not> is_object d then False
          else if \<not> truthy_opt (get_prop d ''target'') \<or> \<not> is_string (or_else (get_prop d ''target'') JNull)
          then False
          else if \<not> truthy_opt (get_prop d ''type'') \<or> \<not> is_string (or_else (get_prop d ''type'') JNull)
          then False
          else True)"

definition no_username :: "string \<Rightarrow> jsval" where
  "no_username message = error_event ''NO_USERNAME'' message"

definition directFailed_event :: "nat \<Rightarrow> jsval \<Rightarrow> jsval" where
  "directFailed_event now target =
     JObj [(''success'', JBool False), (''target'', target),
           (''reason'', JStr (''User '' @ [CHR 0x22] @ (case target of JStr t \<Rightarrow> t | _ \<Rightarrow> [])
                               @ [CHR 0x22] @ '' is not online or does not exist'')),
           (''timestamp'', JDate now)]"

definition directSent_event :: "nat \<Rightarrow> jsval \<Rightarrow> jsval" where
  "directSent_event now target =
     JObj [(''success'', JBool True), (''target'', target), (''timestamp'', JDate now)]"

text \<open>\<open>{ ...messageContent, sender, timestamp }\<close>, where \<open>messageContent\<close> is the message without its \<open>target\<close>.\<close>

definition direct_event :: "nat \<Rightarrow> sid \<Rightarrow> jsval \<Rightarrow> ClientData \<Rightarrow> jsval \<Rightarrow> jsval" where
  "direct_event now s username senderInfo d =
     JObj (spread (AList.delete ''target'' (own_entries d))
             [(''sender'', sender_of s username senderInfo), (''timestamp'', JDate now)])"

text \<open>The handler of \<open>system:direct\<close>; its last statement logs the sender's username.\<close>

definition direct :: "nat \<Rightarrow> sid \<Rightarrow> jsval option \<Rightarrow> hub \<Rightarrow> hub" where
  "direct now s data st =
     (if \<not> isValidDirectMessage data then
        emit s ''system:error'' (error_event ''INVALID_FORMAT'' ''Invalid direct message format'') st
      else
        (case data of
           None \<Rightarrow> st
         | Some d \<Rightarrow>
             (let target = or_else (get_prop d ''target'') JNull in
              case getClient st s of
                None \<Rightarrow>
                  emit s ''system:error''
                    (no_username ''You must set a username before sending direct messages'') st
              | Some a \<Rightarrow>
                  (case meta_prop (deref st a) ''username'' of
                     None \<Rightarrow>
                       emit s ''system:error''
                         (no_username ''You must set a username before sending direct messages'') st
                   | Some username \<Rightarrow>
                       if \<not> truthy username then
                         emit s ''system:error''
                           (no_username ''You must set a username before sending direct messages'') st
                       else
                         (case getClientByUsername st target of
                            None \<Rightarrow>
                              logged username
                                (emit s ''system:directSent'' (directFailed_event now target) st)
                          | Some t \<Rightarrow>
                              logged username
                                (emit s ''system:directSent'' (directSent_event now target)
                                   (emit (socket (deref st t)) ''system:direct''
                                      (direct_event now s username (deref st a) d) st)))))))"

subsection \<open>\<open>system:typingStart\<close> and \<open>system:typingStop\<close>\<close>

definition isValidTypingEvent :: "jsval option \<Rightarrow> bool" where
  "isValidTypingEvent data =
     (case data of
        None \<Rightarrow> False
      | Some d \<Rightarrow>
          if \<not> truthy d \<or> \<not> is_object d then False
          else if \<not> truthy_opt (get_prop d ''target'') \<or> \<not> is_string (or_else (get_prop d ''target'') JNull)
          then False
          else True)"

definition typing_event :: "nat \<Rightarrow> sid \<Rightarrow> jsval \<Rightarrow> ClientData \<Rightarrow> bool \<Rightarrow> jsval" where
  "typing_event now s username senderInfo isTyping =
     JObj [(''sender'', sender_of s username senderInfo), (''isTyping'', JBool isTyping),
           (''timestamp'', JDate now)]"

definition sendTypingStopToUser :: "nat \<Rightarrow> sid \<Rightarrow> nat \<Rightarrow> jsval \<Rightarrow> nat \<Rightarrow> hub \<Rightarrow> hub" where
  "sendTypingStopToUser now s targetClient senderUsername senderInfo st =
     emit (socket (deref st targetClient)) ''system:typingUpdate''
       (typing_event now s senderUsername (deref st senderInfo) False) st"

text \<open>
  The pending auto-stop timers of a connection are the entries of its \<open>typingTimeouts\<close>
  map: a timer that is cleared or has fired is deleted from the map or replaced in it.
  The callback of the timer that \<open>typingStart\<close> sets, with what it captured:
\<close>

definition typingDeadline :: "nat \<Rightarrow> sid \<Rightarrow> string \<Rightarrow> hub \<Rightarrow> hub" where
  "typingDeadline now s target st =
     (case map_of (typingTimeouts st) (s, target) of
        None \<Rightarrow> st
      | Some (targetClient, senderUsername, senderInfo) \<Rightarrow>
          (let st1 = sendTypingStopToUser now s targetClient senderUsername senderInfo st
           in st1\<lparr>typingTimeouts := AList.delete (s, target) (typingTimeouts st1)\<rparr>))"

text \<open>
  What both typing handlers do first: they check the format, the sender's username and
  the target. The result is the error to report, nothing to do (the target is not
  online), or the target name with the target's record, the username and the sender's record.
\<close>

datatype typing_check = TypingError jsval | TypingIgnore | TypingGo string nat jsval nat

definition typingCheck :: "sid \<Rightarrow> jsval option \<Rightarrow> hub \<Rightarrow> typing_check" where
  "typingCheck s data st =
     (if \<not> isValidTypingEvent data then
        TypingError (error_event ''INVALID_FORMAT'' ''Invalid typing event format'')
      else
        (case data of
           None \<Rightarrow> TypingIgnore
         | Some d \<Rightarrow>
             (case get_prop d ''target'' of
                Some (JStr target) \<Rightarrow>
                  (case getClient st s of
                     None \<Rightarrow> TypingError
                       (no_username ''You must set a username before sending typing indicators'')
                   | Some a \<Rightarrow>
                       (case meta_prop (deref st a) ''username'' of
                          None \<Rightarrow> TypingError
                            (no_username ''You must set a username before sending typing indicators'')
                        | Some username \<Rightarrow>
                            if \<not> truthy username then TypingError
                              (no_username ''You must set a username before sending typing indicators'')
                            else
                              (case getClientByUsername st (JStr target) of
                                 None \<Rightarrow> TypingIgnore
                               | Some t \<Rightarrow> TypingGo target t username a)))
              | _ \<Rightarrow> TypingIgnore)))"

definition typingStart :: "nat \<Rightarrow> sid \<Rightarrow> jsval option \<Rightarrow> hub \<Rightarrow> hub" where
  "typingStart now s data st =
     (case typingCheck s data st of
        TypingError e \<Rightarrow> emit s ''system:error'' e st
      | TypingIgnore \<Rightarrow> st
      | TypingGo target t username a \<Rightarrow>
          (let st1 = emit (socket (deref st t)) ''system:typingUpdate''
                       (typing_event now s username (deref st a) True) st
           in st1\<lparr>typingTimeouts := AList.update (s, target) (t, username, a) (typingTimeouts st1)\<rparr>))"

definition typingStop :: "nat \<Rightarrow> sid \<Rightarrow> jsval option \<Rightarrow> hub \<Rightarrow> hub" where
  "typingStop now s data st =
     (case typingCheck s data st of
        TypingError e \<Rightarrow> emit s ''system:error'' e st
      | TypingIgnore \<Rightarrow> st
      | TypingGo target t username a \<Rightarrow>
          sendTypingStopToUser now s t username a
            (st\<lparr>typingTimeouts := AList.delete (s, target) (typingTimeouts st)\<rparr>))"

subsection \<open>\<open>system:general\<close>, \<open>system:clients\<close>, \<open>client-ping\<close>, \<open>system:getConfig\<close>\<close>

definition isValidGeneralMessage :: "jsval option \<Rightarrow> bool" where
  "isValidGeneralMessage data =
     (case data of
        None \<Rightarrow> False
      | Some d \<Rightarrow>
          if \<not> truthy d \<or> \<not> is_object d then False
          else if \<not> truthy_opt (get_prop d ''type'') \<or> \<not> is_string (or_else (get_prop d ''type'') JNull)
          then False
          else True)"

definition general_event :: "nat \<Rightarrow> sid \<Rightarrow> jsval \<Rightarrow> ClientData \<Rightarrow> jsval \<Rightarrow> jsval" where
  "general_event now s username senderInfo d =
     JObj (spread (own_entries d)
             [(''sender'', sender_of s username senderInfo), (''timestamp'', JDate now),
              (''broadcast'', JBool True)])"

text \<open>\<open>socket.broadcast.emit\<close>: to every open connection but the sender's.\<close>

definition broadcast_emit :: "sid \<Rightarrow> string \<Rightarrow> jsval \<Rightarrow> hub \<Rightarrow> hub" where
  "broadcast_emit s ev p st = fold (\<lambda>r. emit r ev p) (filter (\<lambda>r. r \<noteq> s) (sockets st)) st"

text \<open>The handler of \<open>system:general\<close>; its last statement logs the sender's username.\<close>

definition general :: "nat \<Rightarrow> sid \<Rightarrow> jsval option \<Rightarrow> hub \<Rightarrow> hub" where
  "general now s data st =
     (if \<not> isValidGeneralMessage data then
        emit s ''system:error'' (error_event ''INVALID_FORMAT'' ''Invalid message format'') st
      else
        (case data of
           None \<Rightarrow> st
         | Some d \<Rightarrow>
             (case getClient st s of
                None \<Rightarrow>
                  emit s ''system:error''
                    (no_username ''You must set a username with system:setData before sending general messages'') st
              | Some a \<Rightarrow>
                  (case meta_prop (deref st a) ''username'' of
                     None \<Rightarrow>
                       emit s ''system:error''
                         (no_username ''You must set a username with system:setData before sending general messages'') st
                   | Some username \<Rightarrow>
                       if \<not> truthy username then
                         emit s ''system:error''
                           (no_username ''You must set a username with system:setData before sending general messages'') st
                       else
                         logged username
                           (emit s ''system:generalSent''
                              (JObj [(''success'', JBool True), (''originalMessage'', d),
                                     (''timestamp'', JDate now)])
                              (broadcast_emit s ''system:general''
                                 (general_event now s username (deref st a) d) st))))))"

definition client_entry :: "ClientData \<Rightarrow> jsval" where
  "client_entry c =
     JObj [(''id'', JStr (id_client c)),
           (''username'', or_else (meta_prop c ''username'') (JStr ''Anonymous'')),
           (''connectTime'', JDate (connectTime c)),
           (''following'', or_else (meta_prop c ''following'') (JArr [])),
           (''profile'', or_else (meta_prop c ''profile'') (JObj []))]"

definition listClients :: "nat \<Rightarrow> sid \<Rightarrow> hub \<Rightarrow> hub" where
  "listClients now s st =
     (let cs = map (\<lambda>a. client_entry (deref st a)) (getAllClients st)
      in emit s ''system:clients''
           (JObj [(''clients'', JArr cs), (''count'', JNum (int (length cs))),
                  (''timestamp'', JDate now)]) st)"

definition clientPing :: "nat \<Rightarrow> sid \<Rightarrow> hub \<Rightarrow> hub" where
  "clientPing now s st =
     emit s ''client-pong'' (JObj [(''timestamp'', JStr (toISOString now))]) st"

definition getConfig :: "config \<Rightarrow> sid \<Rightarrow> hub \<Rightarrow> hub" where
  "getConfig cfg s st =
     emit s ''system:config''
       (JObj [(''notifications'', JObj [(''maxContentSize'', JNum (int (maxContentSize cfg)))]),
              (''heartbeat'', JObj [(''interval'', JNum (int (heartbeat_interval cfg))),
                                    (''timeout'', JNum (int (heartbeat_timeout cfg)))]),
              (''security'', JObj [(''maxMessageSize'', JNum (int (maxMessageSize cfg)))]),
              (''appInfo'', (case customSettings cfg of None \<Rightarrow> JObj [] | Some cs \<Rightarrow> JObj cs))]) st"

section \<open>Events and runs\<close>

text \<open>
  What can happen to the hub: the transport opens or closes a connection or delivers a
  message of a connection (event name and payload, \<open>None\<close> when the client sent none),
  the heartbeat interval ticks, the deadline of a beat expires (for the record that the
  timer captured), a typing auto-stop expires (for a sender and a target name), or the
  interval timer of a throttled fan-out ticks. Every event comes with the current time.

  An event that cannot occur leaves the state as it is: a connection under an id that is
  open (the transport gives every session an id of its own), a message or a closing of a
  connection that is not open, the expiry of a timer that is not pending, a tick of the
  heartbeat interval when the monitor is off, and any event after a handler threw.
\<close>

datatype event =
    Connect sid
  | Disconnect sid
  | Message sid string "jsval option"
  | HeartbeatInterval
  | HeartbeatDeadline nat
  | TypingDeadline sid string
  | SendInterval nat

definition onMessage :: "config \<Rightarrow> nat \<Rightarrow> sid \<Rightarrow> string \<Rightarrow> jsval option \<Rightarrow> hub \<Rightarrow> hub" where
  "onMessage cfg now s ev data st =
     (if ev = ''system:general'' then general now s data st
      else if ev = ''system:direct'' then direct now s data st
      else if ev = ''client-ping'' then clientPing now s st
      else if ev = ''system:heartbeat-ack'' then heartbeatAck cfg now s data st
      else if ev = ''system:clients'' then listClients now s st
      else if ev = ''system:setData'' then setData cfg now s data st
      else if ev = ''system:notification'' then notification cfg now s data st
      else if ev = ''system:getConfig'' then getConfig cfg s st
      else if ev = ''system:typingStart'' then typingStart now s data st
      else if ev = ''system:typingStop'' then typingStop now s data st
      else st)"

fun handle :: "config \<Rightarrow> nat \<Rightarrow> event \<Rightarrow> hub \<Rightarrow> hub" where
  "handle cfg now (Connect s) st = (if s \<in> set (sockets st) then st else onConnection now s st)"
| "handle cfg now (Disconnect s) st = socket_close now s st"
| "handle cfg now (Message s ev data) st =
     (if s \<in> set (sockets st) then onMessage cfg now s ev data st else st)"
| "handle cfg now HeartbeatInterval st =
     (if heartbeat_enabled cfg then checkAllClientHeartbeats cfg now st else st)"
| "handle cfg now (HeartbeatDeadline a) st =
     (if a \<in> set (beatTimers st)
      then heartbeatDeadline cfg now a (st\<lparr>beatTimers := remove1 a (beatTimers st)\<rparr>) else st)"
| "handle cfg now (TypingDeadline s target) st = typingDeadline now s target st"
| "handle cfg now (SendInterval j) st = sendIntervalTick j st"

definition step :: "config \<Rightarrow> nat \<times> event \<Rightarrow> hub \<Rightarrow> hub" where
  "step cfg te st = (if uncaught st then st else handle cfg (fst te) (snd te) st)"

definition run :: "config \<Rightarrow> (nat \<times> event) list \<Rightarrow> hub \<Rightarrow> hub" where
  "run cfg es st = fold (step cfg) es st"

section \<open>Well-formed registries\<close>

text \<open>
  What holds of the registry in every state that the hub reaches: every handle is
  registered once, no two handles share a record, and the record of a handle carries that
  handle as its \<open>id\<close> and that connection as its \<open>socket\<close>.
\<close>

definition registry_ok :: "hub \<Rightarrow> bool" where
  "registry_ok st \<longleftrightarrow>
     distinct (map fst (clients st)) \<and> distinct (map snd (clients st)) \<and>
     (\<forall>(k, a)\<in>set (clients st).
        a < length (heap st) \<and> id_client (heap st ! a) = k \<and> socket (heap st ! a) = k)"

text \<open>
  For one client in \<open>checkAllClientHeartbeats\<close>: the check finds it timed out when a beat
  is pending and this miss is the \<open>maxMissed\<close>-th; a client that stays is left with the
  miss counted, if a beat was pending, and with a new beat pending.
\<close>

definition timed_out :: "config \<Rightarrow> ClientData \<Rightarrow> bool" where
  "timed_out cfg c \<longleftrightarrow> heartbeatPending c \<and> maxMissed cfg \<le> heartbeatMissed c + 1"

definition checked :: "ClientData \<Rightarrow> ClientData" where
  "checked c = (if heartbeatPending c then missed_one c else c)\<lparr>heartbeatPending := True\<rparr>"

text \<open>
  What \<open>checkAllClientHeartbeats\<close> has done to one client of the registry after it has
  visited a part of the clients, depending on whether that client was visited.
\<close>

definition tick_outcome :: "config \<Rightarrow> hub \<Rightarrow> hub \<Rightarrow> bool \<Rightarrow> sid \<Rightarrow> nat \<Rightarrow> bool" where
  "tick_outcome cfg st st' visited k b \<longleftrightarrow>
     (if visited then
        (if timed_out cfg (heap st ! b)
         then (k, b) \<notin> set (clients st') \<and> (k \<in> set (sockets st) \<longrightarrow> k \<in> set (closed st'))
         else (k, b) \<in> set (clients st') \<and> heap st' ! b = checked (heap st ! b))
      else (k, b) \<in> set (clients st') \<and> heap st' ! b = heap st ! b \<and>
           (k \<in> set (sockets st') \<longleftrightarrow> k \<in> set (sockets st)))"

section \<open>The order of registration\<close>

text \<open>
  For a history of events, newest first, and a handle that is registered after it: the
  number of the event (counting from 1, oldest first) that registered the handle, that
  is, the latest event before which the handle was not registered.
\<close>

fun added_at :: "config \<Rightarrow> (nat \<times> event) list \<Rightarrow> sid \<Rightarrow> nat" where
  "added_at cfg [] s = 0"
| "added_at cfg (e # older) s =
     (if s \<in> fst ` set (clients (run cfg (rev older) initial))
      then added_at cfg older s else Suc (length older))"

text \<open>The handles of \<open>st'\<close> are handles of \<open>st\<close>, in the same order.\<close>

definition keys_shrink :: "hub \<Rightarrow> hub \<Rightarrow> bool" where
  "keys_shrink st st' \<longleftrightarrow> (\<exists>P. map fst (clients st') = filter P (map fst (clients st)))"

section \<open>Typing updates after a disconnect\<close>

text \<open>
  An emitted event is a typing update from connection \<open>s\<close>: its name is
  \<open>system:typingUpdate\<close> and the \<open>id\<close> of its \<open>sender\<close> is \<open>s\<close>.
\<close>

definition typing_from :: "sid \<Rightarrow> sid \<times> string \<times> jsval \<Rightarrow> bool" where
  "typing_from s x \<longleftrightarrow>
     fst (snd x) = ''system:typingUpdate'' \<and>
     (case get_prop (snd (snd x)) ''sender'' of
        None \<Rightarrow> False
      | Some sender \<Rightarrow> get_prop sender ''id'' = Some (JStr s))"


definition quiet :: "sid \<Rightarrow> hub \<Rightarrow> hub \<Rightarrow> bool" where
  "quiet s st st' \<longleftrightarrow> (\<exists>new. sent st' = sent st @ new \<and> (\<forall>x\<in>set new. \<not> typing_from s x))"

text \<open>
  Connection \<open>s\<close> is not open, none of the pending auto-stop timers is one of \<open>s\<close>, and no
  throttled broadcast that is still running carries typing updates.
\<close>

definition still :: "sid \<Rightarrow> hub \<Rightarrow> bool" where
  "still s st \<longleftrightarrow>
     s \<notin> set (sockets st) \<and> (\<forall>e\<in>set (typingTimeouts st). fst (fst e) \<noteq> s) \<and>
     (\<forall>j\<in>set (sendIntervals st). fst (snd (snd j)) \<noteq> ''system:typingUpdate'')"

text \<open>Every throttled broadcast that is still running carries notifications.\<close>

definition jobs_ok :: "hub \<Rightarrow> bool" where
  "jobs_ok st \<longleftrightarrow> (\<forall>j\<in>set (sendIntervals st). fst (snd (snd j)) = ''system:notification'')"

section \<open>Example configurations and states\<close>

text \<open>The default configuration of the repository.\<close>

definition defaults :: config where
  "defaults =
     \<lparr>heartbeat_enabled = True, heartbeat_interval = 30000, heartbeat_timeout = 5000,
      maxMissed = 5, maxMessageSize = 102400, maxFollowerNotifications = 10000,
      throttleMs = 0, maxContentSize = 10240,
      customSettings =
        Some [(''appName'', JStr ''WebSocket Server''), (''appVersion'', JStr ''1.0.0''),
              (''adminContact'', JStr ''admin@example.com''), (''typingTimeout'', JNum 5000)]\<rparr>"

text \<open>A registry with one client that has a username, two missed beats and a beat pending.\<close>

definition dup_before :: hub where
  "dup_before =
     assign 0 (\<lambda>c. c\<lparr>heartbeatMissed := 2, heartbeatPending := True\<rparr>)
       (addClient 1 ''a'' (Some [(''username'', JStr ''ann'')]) initial)"

text \<open>A configuration with a very small limit on the size of a patch.\<close>

definition tiny :: config where
  "tiny = defaults\<lparr>maxMessageSize := 5\<rparr>"

text \<open>
  Two clients: \<open>a\<close> with username \<open>ann\<close>, and \<open>b\<close> with username \<open>bob\<close>, who follows \<open>ann\<close>.
\<close>

definition two_users :: hub where
  "two_users =
     \<lparr>heap =
        [\<lparr>id_client = ''a'', socket = ''a'', connectTime = 1,
          metadata = Some [(''username'', JStr ''ann''), (''lastUpdated'', JDate 3)],
          lastHeartbeat = Some 1, heartbeatMissed = 0, heartbeatPending = False\<rparr>,
         \<lparr>id_client = ''b'', socket = ''b'', connectTime = 2,
          metadata = Some [(''username'', JStr ''bob''), (''following'', JArr [JStr ''ann'']),
                           (''lastUpdated'', JDate 4)],
          lastHeartbeat = Some 2, heartbeatMissed = 0, heartbeatPending = False\<rparr>],
      clients = [(''a'', 0), (''b'', 1)], sockets = [''a'', ''b''], sent = [], closed = [],
      beatTimers = [], typingTimeouts = [], sendIntervals = [], totalConnections = 2,
      activeConnections = 2, uncaught = False\<rparr>"

definition chat_to_bob :: jsval where
  "chat_to_bob = JObj [(''type'', JStr ''chat''), (''target'', JStr ''bob''), (''text'', JStr ''hi'')]"

text \<open>Two patches with one key each.\<close>

definition patch_a :: jsval where
  "patch_a = JObj [(''a'', JNum 1)]"

definition patch_b :: jsval where
  "patch_b = JObj [(''b'', JNum 2)]"



text \<open>
  A patch whose username is an object with a property \<open>toString\<close> that is no function
  (what the JSON text \<open>{"username":{"toString":0}}\<close> parses to).
\<close>

definition no_text :: jsval where
  "no_text = JObj [(''username'', JObj [(''toString'', JNum 0)])]"





text \<open>
  Two clients with a beat pending: \<open>a\<close> has missed four beats, \<open>b\<close> none.
\<close>

definition late :: hub where
  "late =
     \<lparr>heap =
        [\<lparr>id_client = ''a'', socket = ''a'', connectTime = 1,
          metadata = Some [(''username'', JStr ''ann'')],
          lastHeartbeat = Some 1, heartbeatMissed = 4, heartbeatPending = True\<rparr>,
         \<lparr>id_client = ''b'', socket = ''b'', connectTime = 2,
          metadata = Some [(''username'', JStr ''bob'')],
          lastHeartbeat = Some 2, heartbeatMissed = 0, heartbeatPending = True\<rparr>],
      clients = [(''a'', 0), (''b'', 1)], sockets = [''a'', ''b''], sent = [], closed = [],
      beatTimers = [0, 1], typingTimeouts = [], sendIntervals = [], totalConnections = 2,
      activeConnections = 2, uncaught = False\<rparr>"

text \<open>
  One client that was sent the beat \<open>100\<close>, has not answered it in time (one miss) and
  still has it pending.
\<close>

definition beat_missed :: hub where
  "beat_missed =
     \<lparr>heap =
        [\<lparr>id_client = ''a'', socket = ''a'', connectTime = 1, metadata = None,
          lastHeartbeat = Some 1, heartbeatMissed = 1, heartbeatPending = True\<rparr>],
      clients = [(''a'', 0)], sockets = [''a''],
      sent = [(''a'', ''system:heartbeat'', JObj [(''id'', JStr ''100''), (''timestamp'', JDate 100)])],
      closed = [], beatTimers = [], typingTimeouts = [], sendIntervals = [],
      totalConnections = 1, activeConnections = 1, uncaught = False\<rparr>"

text \<open>
  Two clients connect, \<open>a\<close> before \<open>b\<close>; then \<open>b\<close> takes the username \<open>sam\<close>, and after
  it \<open>a\<close> takes the same username. The states \<open>w1\<close> to \<open>w4\<close> are the states after each
  of the four events.
\<close>

definition sam :: jsval where
  "sam = JObj [(''username'', JStr ''sam'')]"

definition same_name :: "(nat \<times> event) list" where
  "same_name =
     [(10, Connect ''a''), (20, Connect ''b''),
      (30, Message ''b'' ''system:setData'' (Some sam)),
      (40, Message ''a'' ''system:setData'' (Some sam))]"

definition w1 :: hub where
  "w1 = step defaults (10, Connect ''a'') initial"

definition w2 :: hub where
  "w2 = step defaults (20, Connect ''b'') w1"

definition w3 :: hub where
  "w3 = step defaults (30, Message ''b'' ''system:setData'' (Some sam)) w2"

definition w4 :: hub where
  "w4 = step defaults (40, Message ''a'' ''system:setData'' (Some sam)) w3"





section \<open>Basic facts\<close>

lemma emit_fields [simp]:
  "heap (emit s ev p st) = heap st"
  "clients (emit s ev p st) = clients st"
  "sockets (emit s ev p st) = sockets st"
  "sent (emit s ev p st) = sent st @ [(s, ev, p)]"
  "closed (emit s ev p st) = closed st"
  "beatTimers (emit s ev p st) = beatTimers st"
  "typingTimeouts (emit s ev p st) = typingTimeouts st"
  "sendIntervals (emit s ev p st) = sendIntervals st"
  "totalConnections (emit s ev p st) = totalConnections st"
  "activeConnections (emit s ev p st) = activeConnections st"
  "uncaught (emit s ev p st) = uncaught st"
  by (simp_all add: emit_def)

lemma assign_fields [simp]:
  "heap (assign a f st) = (heap st)[a := f (heap st ! a)]"
  "clients (assign a f st) = clients st"
  "sockets (assign a f st) = sockets st"
  "sent (assign a f st) = sent st"
  "closed (assign a f st) = closed st"
  "beatTimers (assign a f st) = beatTimers st"
  "typingTimeouts (assign a f st) = typingTimeouts st"
  "sendIntervals (assign a f st) = sendIntervals st"
  "totalConnections (assign a f st) = totalConnections st"
  "activeConnections (assign a f st) = activeConnections st"
  "uncaught (assign a f st) = uncaught st"
  by (simp_all add: assign_def)

lemma getClient_emit [simp]: "getClient (emit s ev p st) = getClient st"
  by (rule ext) (simp add: getClient_def)

lemma deref_emit [simp]: "deref (emit s ev p st) = deref st"
  by (rule ext) (simp add: deref_def)

lemma getClient_assign [simp]: "getClient (assign a f st) = getClient st"
  by (rule ext) (simp add: getClient_def)

lemma find_None_iff2: "find P xs = None \<longleftrightarrow> (\<forall>x\<in>set xs. \<not> P x)"
  by (induction xs) auto

lemma find_Some_D: "find P xs = Some x \<Longrightarrow> x \<in> set xs \<and> P x"
  by (induction xs) (auto split: if_splits)

lemma logged_fields [simp]:
  "heap (logged v st) = heap st"
  "clients (logged v st) = clients st"
  "sockets (logged v st) = sockets st"
  "sent (logged v st) = sent st"
  "closed (logged v st) = closed st"
  "beatTimers (logged v st) = beatTimers st"
  "typingTimeouts (logged v st) = typingTimeouts st"
  "sendIntervals (logged v st) = sendIntervals st"
  "totalConnections (logged v st) = totalConnections st"
  "activeConnections (logged v st) = activeConnections st"
  "uncaught (logged v st) \<longleftrightarrow> uncaught st \<or> \<not> textable v"
  by (simp_all add: logged_def)

lemma logged_eq: "logged v st = st\<lparr>uncaught := uncaught st \<or> \<not> textable v\<rparr>"
  by (simp add: logged_def)

lemma getClient_logged [simp]: "getClient (logged v st) = getClient st"
  by (rule ext) (simp add: getClient_def)

lemma deref_logged [simp]: "deref (logged v st) = deref st"
  by (rule ext) (simp add: deref_def)

lemma logged_invariants [simp]:
  "registry_ok (logged v st) = registry_ok st"
  "still s (logged v st) = still s st"
  "jobs_ok (logged v st) = jobs_ok st"
  by (simp_all add: registry_ok_def still_def jobs_ok_def)

lemma map_of_insert_index:
  "map_of kvs k = None \<Longrightarrow> map_of (insert_index k v kvs) = (map_of kvs)(k \<mapsto> v)"
  by (induction kvs) (auto simp: fun_eq_iff)

lemma map_of_set_prop: "map_of (set_prop k v kvs) = (map_of kvs)(k \<mapsto> v)"
  by (simp add: set_prop_def map_of_insert_index update_conv')

lemma map_of_spread: "map_of (spread a b) = map_of a ++ map_of (rev b)"
  unfolding spread_def
proof (induction b arbitrary: a)
  case Nil
  then show ?case by simp
next
  case (Cons kv b)
  show ?case
    by (simp add: Cons.IH map_of_set_prop map_add_def fun_eq_iff split: option.splits)
qed

text \<open>Assignments and spreads keep the keys of an object in property order.\<close>

lemma property_order_Cons:
  "property_order (k # ks) \<longleftrightarrow>
     (if is_index k
      then (\<forall>x\<in>set (takeWhile is_index ks). index_value k \<le> index_value x) \<and> property_order ks
      else list_all (\<lambda>k. \<not> is_index k) ks)"
  by (simp add: property_order_def)

lemma property_order_plain: "list_all (\<lambda>k. \<not> is_index k) ks \<Longrightarrow> property_order ks"
  by (induction ks) (simp_all add: property_order_def)

lemma property_order_append:
  assumes "property_order ks" "\<not> is_index k"
  shows "property_order (ks @ [k])"
proof (cases "\<forall>x\<in>set ks. is_index x")
  case True
  then have "takeWhile is_index (ks @ [k]) = ks" "dropWhile is_index (ks @ [k]) = [k]"
    "takeWhile is_index ks = ks"
    using assms(2) by (simp_all add: takeWhile_append2 dropWhile_append2)
  with assms show ?thesis
    by (simp add: property_order_def)
next
  case False
  then obtain x where "x \<in> set ks" "\<not> is_index x" by blast
  then have "takeWhile is_index (ks @ [k]) = takeWhile is_index ks"
    "dropWhile is_index (ks @ [k]) = dropWhile is_index ks @ [k]"
    by (simp_all add: takeWhile_append1 dropWhile_append1)
  with assms show ?thesis
    by (simp add: property_order_def)
qed

lemma takeWhile_insert_index:
  "is_index k \<Longrightarrow>
   set (takeWhile is_index (map fst (insert_index k v kvs))) =
     insert k (set (takeWhile is_index (map fst kvs)))"
  by (induction kvs) auto

lemma property_order_insert_index:
  "is_index k \<Longrightarrow> property_order (map fst kvs) \<Longrightarrow>
   property_order (map fst (insert_index k v kvs))"
proof (induction kvs)
  case Nil
  then show ?case by (simp add: property_order_def)
next
  case (Cons e es)
  show ?case
  proof (cases "is_index (fst e) \<and> index_value (fst e) < index_value k")
    case True
    with Cons show ?thesis
      by (auto simp: property_order_Cons takeWhile_insert_index)
  next
    case False
    show ?thesis
    proof (cases "is_index (fst e)")
      case True
      with False have le: "index_value k \<le> index_value (fst e)" by simp
      from Cons.prems(2) True
      have "\<forall>x\<in>set (takeWhile is_index (map fst es)). index_value (fst e) \<le> index_value x"
        by (simp add: property_order_Cons)
      with le have "\<forall>x\<in>set (takeWhile is_index (map fst es)). index_value k \<le> index_value x"
        by (meson order_trans)
      with Cons.prems True False le show ?thesis
        by (simp add: property_order_Cons)
    next
      case no: False
      with Cons.prems False show ?thesis
        by (simp add: property_order_Cons)
    qed
  qed
qed

lemma keys_update:
  "map fst (AList.update k v kvs) = (if k \<in> fst ` set kvs then map fst kvs else map fst kvs @ [k])"
  by (induction kvs) auto

lemma property_order_set_prop:
  "property_order (map fst kvs) \<Longrightarrow> property_order (map fst (set_prop k v kvs))"
  by (auto simp: set_prop_def property_order_insert_index keys_update property_order_append
      map_of_eq_None_iff)

lemma property_order_spread:
  "property_order (map fst a) \<Longrightarrow> property_order (map fst (spread a b))"
  unfolding spread_def by (induction b arbitrary: a) (simp_all add: property_order_set_prop)

lemma property_order_updatedMetadata:
  "property_order (map fst cur) \<Longrightarrow> property_order (map fst (updatedMetadata now cur d))"
  by (simp add: updatedMetadata_def property_order_set_prop property_order_spread)

lemma set_prop_example:
  "set_prop ''1'' (JNum 5) [(''0'', JNull), (''2'', JNull), (''a'', JNull)] =
     [(''0'', JNull), (''1'', JNum 5), (''2'', JNull), (''a'', JNull)]"
  "set_prop ''10'' (JNum 5) [(''2'', JNull), (''a'', JNull)] =
     [(''2'', JNull), (''10'', JNum 5), (''a'', JNull)]"
  "set_prop ''01'' (JNum 5) [(''2'', JNull), (''a'', JNull)] =
     [(''2'', JNull), (''a'', JNull), (''01'', JNum 5)]"
  by (simp_all add: set_prop_def is_index_def index_value_def)

lemma getClientByUsername_None:
  "getClientByUsername st u = None \<longleftrightarrow> (\<forall>b\<in>set (getAllClients st). \<not> has_username st u b)"
  by (simp add: getClientByUsername_def getAllClients_def find_None_iff2)

lemma getClientByUsername_Some:
  "getClientByUsername st u = Some b \<Longrightarrow> b \<in> set (getAllClients st) \<and> has_username st u b"
  unfolding getClientByUsername_def getAllClients_def by (rule find_Some_D)

lemma sender_of_username: "get_prop (sender_of s u c) ''username'' = Some u"
  by (simp add: sender_of_def)

lemma direct_event_sender:
  "get_prop (direct_event now s u c d) ''sender'' = Some (sender_of s u c)"
  by (simp add: direct_event_def map_of_spread)

lemma notifyFollowed_frame [simp]:
  "heap (notifyFollowed now s u st) = heap st"
  "clients (notifyFollowed now s u st) = clients st"
  "sockets (notifyFollowed now s u st) = sockets st"
  "closed (notifyFollowed now s u st) = closed st"
  "beatTimers (notifyFollowed now s u st) = beatTimers st"
  "typingTimeouts (notifyFollowed now s u st) = typingTimeouts st"
  "sendIntervals (notifyFollowed now s u st) = sendIntervals st"
  "uncaught (notifyFollowed now s u st) = uncaught st"
  by (simp_all add: notifyFollowed_def split: option.splits)

lemma notifyFollowed_sent:
  "\<exists>new. sent (notifyFollowed now s u st) = sent st @ new \<and>
         (\<forall>x\<in>set new. fst (snd x) = ''system:followed'')"
  by (simp add: notifyFollowed_def split: option.splits)

lemma fold_notifyFollowed_frame [simp]:
  "heap (fold (notifyFollowed now s) us st) = heap st"
  "clients (fold (notifyFollowed now s) us st) = clients st"
  "sockets (fold (notifyFollowed now s) us st) = sockets st"
  "closed (fold (notifyFollowed now s) us st) = closed st"
  "beatTimers (fold (notifyFollowed now s) us st) = beatTimers st"
  "typingTimeouts (fold (notifyFollowed now s) us st) = typingTimeouts st"
  "sendIntervals (fold (notifyFollowed now s) us st) = sendIntervals st"
  "uncaught (fold (notifyFollowed now s) us st) = uncaught st"
  by (induction us arbitrary: st; simp)+

lemma fold_notifyFollowed_sent:
  "\<exists>new. sent (fold (notifyFollowed now s) us st) = sent st @ new \<and>
         (\<forall>x\<in>set new. fst (snd x) = ''system:followed'')"
proof (induction us arbitrary: st)
  case Nil
  then show ?case by simp
next
  case (Cons u us)
  obtain n1 where n1: "sent (notifyFollowed now s u st) = sent st @ n1"
      "\<forall>x\<in>set n1. fst (snd x) = ''system:followed''"
    using notifyFollowed_sent by blast
  obtain n2 where n2: "sent (fold (notifyFollowed now s) us (notifyFollowed now s u st)) =
        sent (notifyFollowed now s u st) @ n2" "\<forall>x\<in>set n2. fst (snd x) = ''system:followed''"
    using Cons.IH by blast
  show ?case
    by (rule exI [of _ "n1 @ n2"]) (use n1 n2 in auto)
qed

lemma handleFollowingUpdate_frame [simp]:
  "heap (handleFollowingUpdate now s new old st) = heap st"
  "clients (handleFollowingUpdate now s new old st) = clients st"
  "sockets (handleFollowingUpdate now s new old st) = sockets st"
  "closed (handleFollowingUpdate now s new old st) = closed st"
  "beatTimers (handleFollowingUpdate now s new old st) = beatTimers st"
  "typingTimeouts (handleFollowingUpdate now s new old st) = typingTimeouts st"
  "sendIntervals (handleFollowingUpdate now s new old st) = sendIntervals st"
  by (simp_all add: handleFollowingUpdate_def split: jsval.splits)

lemma handleFollowingUpdate_sent:
  "\<exists>new. sent (handleFollowingUpdate now s newF old st) = sent st @ new \<and>
         (\<forall>x\<in>set new. fst (snd x) = ''system:followed'')"
  using fold_notifyFollowed_sent
  by (cases old) (simp_all add: handleFollowingUpdate_def)

lemma updateClient_Some:
  "getClient st i = Some a \<Longrightarrow>
   fst (updateClient i d st) =
     st\<lparr>heap := heap st @ [spread_client (deref st a) d],
        clients := AList.update i (length (heap st)) (clients st)\<rparr>"
  by (simp add: updateClient_def)

lemma updateClient_None: "getClient st i = None \<Longrightarrow> fst (updateClient i d st) = st"
  by (simp add: updateClient_def)

lemma spread_client_metadata:
  "spread_client c (no_fields\<lparr>part_metadata := Some m\<rparr>) = c\<lparr>metadata := m\<rparr>"
  by (simp add: spread_client_def no_fields_def)

lemma map_of_rev_distinct: "distinct (map fst xs) \<Longrightarrow> map_of (rev xs) = map_of xs"
  by (subst map_of_inject_set) (simp_all add: rev_map [symmetric])

lemma map_of_updatedMetadata:
  assumes "distinct (keys_of d)"
  shows "map_of (updatedMetadata now cur d) k =
     (if k = ''lastUpdated'' then Some (JDate now)
      else (case map_of (own_entries d) k of Some v \<Rightarrow> Some v | None \<Rightarrow> map_of cur k))"
  using assms
  by (simp add: updatedMetadata_def map_of_set_prop map_of_spread keys_of_def map_of_rev_distinct
      map_add_def)

lemma fold_emit_targets:
  "fold (\<lambda>follower st'. emit (socket (deref st' follower)) ev p st') targets st =
     st\<lparr>sent := sent st @ map (\<lambda>b. (socket (deref st b), ev, p)) targets\<rparr>"
proof (induction targets arbitrary: st)
  case Nil
  then show ?case by simp
next
  case (Cons b bs)
  show ?case
    by (simp add: Cons.IH)
qed



lemma io_emit_fields [simp]:
  "heap (io_emit ev p st) = heap st"
  "clients (io_emit ev p st) = clients st"
  "sockets (io_emit ev p st) = sockets st"
  "closed (io_emit ev p st) = closed st"
  "beatTimers (io_emit ev p st) = beatTimers st"
  "typingTimeouts (io_emit ev p st) = typingTimeouts st"
  "sendIntervals (io_emit ev p st) = sendIntervals st"
  "totalConnections (io_emit ev p st) = totalConnections st"
  "activeConnections (io_emit ev p st) = activeConnections st"
  "uncaught (io_emit ev p st) = uncaught st"
proof -
  have "fold (\<lambda>s. emit s ev p) ss st = st\<lparr>sent := sent st @ map (\<lambda>s. (s, ev, p)) ss\<rparr>" for ss
    by (induction ss arbitrary: st) (simp_all add: emit_def)
  then have eq: "io_emit ev p st = st\<lparr>sent := sent st @ map (\<lambda>s. (s, ev, p)) (sockets st)\<rparr>"
    by (simp add: io_emit_def)
  show "heap (io_emit ev p st) = heap st"
  "clients (io_emit ev p st) = clients st"
  "sockets (io_emit ev p st) = sockets st"
  "closed (io_emit ev p st) = closed st"
  "beatTimers (io_emit ev p st) = beatTimers st"
  "typingTimeouts (io_emit ev p st) = typingTimeouts st"
  "sendIntervals (io_emit ev p st) = sendIntervals st"
  "totalConnections (io_emit ev p st) = totalConnections st"
  "activeConnections (io_emit ev p st) = activeConnections st"
  "uncaught (io_emit ev p st) = uncaught st"
    by (simp_all add: eq)
qed


lemma removeClient_fields [simp]:
  "heap (fst (removeClient i st)) = heap st"
  "clients (fst (removeClient i st)) = AList.delete i (clients st)"
  "sockets (fst (removeClient i st)) = sockets st"
  "sent (fst (removeClient i st)) = sent st"
  "closed (fst (removeClient i st)) = closed st"
  "beatTimers (fst (removeClient i st)) = beatTimers st"
  "typingTimeouts (fst (removeClient i st)) = typingTimeouts st"
  "sendIntervals (fst (removeClient i st)) = sendIntervals st"
  "totalConnections (fst (removeClient i st)) = totalConnections st"
  "activeConnections (fst (removeClient i st)) = activeConnections st"
  "uncaught (fst (removeClient i st)) = uncaught st"
  by (simp_all add: removeClient_def)

lemma onDisconnect_fields [simp]:
  "heap (onDisconnect now s st) = heap st"
  "clients (onDisconnect now s st) = AList.delete s (clients st)"
  "sockets (onDisconnect now s st) = sockets st"
  "closed (onDisconnect now s st) = closed st"
  "beatTimers (onDisconnect now s st) = beatTimers st"
  "typingTimeouts (onDisconnect now s st) = filter (\<lambda>e. fst (fst e) \<noteq> s) (typingTimeouts st)"
  "sendIntervals (onDisconnect now s st) = sendIntervals st"
  "totalConnections (onDisconnect now s st) = totalConnections st"
  "activeConnections (onDisconnect now s st) = activeConnections st - 1"
  "uncaught (onDisconnect now s st) = uncaught st"
  by (simp_all add: onDisconnect_def clearTypingTimeouts_def Let_def)

lemma socket_close_fields [simp]:
  "heap (socket_close now s st) = heap st"
  "clients (socket_close now s st) =
     (if s \<in> set (sockets st) then AList.delete s (clients st) else clients st)"
  "sockets (socket_close now s st) = removeAll s (sockets st)"
  "closed (socket_close now s st) = closed st"
  "beatTimers (socket_close now s st) = beatTimers st"
  "typingTimeouts (socket_close now s st) =
     (if s \<in> set (sockets st) then filter (\<lambda>e. fst (fst e) \<noteq> s) (typingTimeouts st)
      else typingTimeouts st)"
  "sendIntervals (socket_close now s st) = sendIntervals st"
  "totalConnections (socket_close now s st) = totalConnections st"
  "uncaught (socket_close now s st) = uncaught st"
  by (simp_all add: socket_close_def)

lemma socket_disconnect_fields [simp]:
  "heap (socket_disconnect now s st) = heap st"
  "clients (socket_disconnect now s st) =
     (if s \<in> set (sockets st) then AList.delete s (clients st) else clients st)"
  "sockets (socket_disconnect now s st) = removeAll s (sockets st)"
  "closed (socket_disconnect now s st) =
     (if s \<in> set (sockets st) then closed st @ [s] else closed st)"
  "beatTimers (socket_disconnect now s st) = beatTimers st"
  "typingTimeouts (socket_disconnect now s st) =
     (if s \<in> set (sockets st) then filter (\<lambda>e. fst (fst e) \<noteq> s) (typingTimeouts st)
      else typingTimeouts st)"
  "sendIntervals (socket_disconnect now s st) = sendIntervals st"
  "totalConnections (socket_disconnect now s st) = totalConnections st"
  "uncaught (socket_disconnect now s st) = uncaught st"
  by (simp_all add: socket_disconnect_def)

lemma delete_twice [simp]: "AList.delete k (AList.delete k xs) = AList.delete k xs"
  by (simp add: AList.delete_eq)

lemma disconnectClient_heap [simp]: "heap (disconnectClient now i st) = heap st"
  by (simp add: disconnectClient_def split: option.splits)

lemma disconnectClient_misc [simp]:
  "beatTimers (disconnectClient now i st) = beatTimers st"
  "sendIntervals (disconnectClient now i st) = sendIntervals st"
  "totalConnections (disconnectClient now i st) = totalConnections st"
  "uncaught (disconnectClient now i st) = uncaught st"
  by (simp_all add: disconnectClient_def split: option.splits)

lemma disconnectClient_clients:
  "clients (disconnectClient now i st) =
     (case getClient st i of
        None \<Rightarrow> clients st
      | Some a \<Rightarrow>
          AList.delete i (if socket (deref st a) \<in> set (sockets st)
                          then AList.delete (socket (deref st a)) (clients st) else clients st))"
  by (simp add: disconnectClient_def split: option.splits)

lemma delete_absent: "map_of xs k = None \<Longrightarrow> AList.delete k xs = xs"
  by (induction xs) (auto split: if_splits)

lemma disconnectClient_clients_ok:
  assumes "registry_ok st"
  shows "clients (disconnectClient now i st) = AList.delete i (clients st)"
proof (cases "getClient st i")
  case None
  then show ?thesis
    by (simp add: disconnectClient_clients getClient_def delete_absent)
next
  case (Some a)
  then have "(i, a) \<in> set (clients st)"
    by (simp add: getClient_def map_of_SomeD)
  with assms have "socket (deref st a) = i"
    by (auto simp: registry_ok_def deref_def)
  with Some show ?thesis
    by (simp add: disconnectClient_clients)
qed

lemma sendHeartbeat_fields [simp]:
  "heap (sendHeartbeat now a st) = (heap st)[a := (heap st ! a)\<lparr>heartbeatPending := True\<rparr>]"
  "clients (sendHeartbeat now a st) = clients st"
  "sockets (sendHeartbeat now a st) = sockets st"
  "closed (sendHeartbeat now a st) = closed st"
  "beatTimers (sendHeartbeat now a st) = beatTimers st @ [a]"
  "typingTimeouts (sendHeartbeat now a st) = typingTimeouts st"
  "sendIntervals (sendHeartbeat now a st) = sendIntervals st"
  "totalConnections (sendHeartbeat now a st) = totalConnections st"
  "uncaught (sendHeartbeat now a st) = uncaught st"
  by (simp_all add: sendHeartbeat_def Let_def)

lemma registry_ok_heap_clients:
  "registry_ok st \<Longrightarrow> heap st' = heap st \<Longrightarrow> clients st' = clients st \<Longrightarrow> registry_ok st'"
  by (simp add: registry_ok_def)

lemma registry_ok_delete:
  assumes "registry_ok st" "heap st' = heap st" "clients st' = AList.delete i (clients st)"
  shows "registry_ok st'"
proof -
  have sub: "set (clients st') \<subseteq> set (clients st)"
    by (auto simp: assms(3) AList.delete_eq)
  have "distinct (map fst (clients st'))" "distinct (map snd (clients st'))"
    using assms(1) unfolding registry_ok_def assms(3) AList.delete_eq
    by (simp_all add: distinct_map_filter)
  then show ?thesis
    using assms(1) sub unfolding registry_ok_def assms(2) by blast
qed

lemma nth_update_field:
  "(\<And>c. g (f c) = g c) \<Longrightarrow> g (xs[a := f (xs ! a)] ! b) = g (xs ! b)"
  by (cases "a = b"; cases "a < length xs") (simp_all add: list_update_beyond)

lemma registry_ok_update:
  assumes "registry_ok st" "clients st' = clients st" "heap st' = (heap st)[a := f (heap st ! a)]"
    and "\<And>c. id_client (f c) = id_client c" "\<And>c. socket (f c) = socket c"
  shows "registry_ok st'"
proof -
  have "id_client (heap st' ! b) = id_client (heap st ! b)"
    and "socket (heap st' ! b) = socket (heap st ! b)" for b
    using assms(3-5) by (simp_all add: nth_update_field)
  then show ?thesis
    using assms(1,2) length_list_update [of "heap st" a] assms(3)
    unfolding registry_ok_def by auto
qed

lemma registry_ok_assign:
  assumes "registry_ok st" "\<And>c. id_client (f c) = id_client c" "\<And>c. socket (f c) = socket c"
  shows "registry_ok (assign a f st)"
  by (rule registry_ok_update [where st = st and f = f and a = a]) (use assms in simp_all)

lemma registry_ok_disconnectClient:
  "registry_ok st \<Longrightarrow> registry_ok (disconnectClient now i st)"
  by (rule registry_ok_delete [where i = i]) (simp_all add: disconnectClient_clients_ok)

lemma registry_ok_sendHeartbeat:
  "registry_ok st \<Longrightarrow> registry_ok (sendHeartbeat now a st)"
  by (rule registry_ok_update [where st = st and a = a and f = "\<lambda>c. c\<lparr>heartbeatPending := True\<rparr>"])
    simp_all

lemma registry_ok_checkClientHeartbeat:
  "registry_ok st \<Longrightarrow> registry_ok (checkClientHeartbeat cfg now a st)"
  by (simp add: checkClientHeartbeat_def Let_def registry_ok_disconnectClient
      registry_ok_sendHeartbeat registry_ok_assign missed_one_def)

lemma registry_ok_heartbeatDeadline:
  "registry_ok st \<Longrightarrow> registry_ok (heartbeatDeadline cfg now a st)"
  by (simp add: heartbeatDeadline_def Let_def registry_ok_disconnectClient
      registry_ok_assign missed_one_def)

lemma registry_ok_fold_check:
  "registry_ok st \<Longrightarrow> registry_ok (fold (checkClientHeartbeat cfg now) as st)"
  by (induction as arbitrary: st) (simp_all add: registry_ok_checkClientHeartbeat)

lemma registry_ok_entry:
  "registry_ok st \<Longrightarrow> (k, a) \<in> set (clients st) \<Longrightarrow>
     getClient st k = Some a \<and> a < length (heap st) \<and> id_client (heap st ! a) = k \<and>
     socket (heap st ! a) = k"
  by (auto simp: registry_ok_def getClient_def)

lemma registry_ok_addr_key:
  "registry_ok st \<Longrightarrow> (k, a) \<in> set (clients st) \<Longrightarrow> (k', a) \<in> set (clients st) \<Longrightarrow> k' = k"
  using registry_ok_entry [of st k a] registry_ok_entry [of st k' a] by simp

lemma registry_ok_key_addr:
  "registry_ok st \<Longrightarrow> (k, a) \<in> set (clients st) \<Longrightarrow> (k, a') \<in> set (clients st) \<Longrightarrow> a' = a"
  using registry_ok_entry [of st k a] registry_ok_entry [of st k a'] by simp

lemma checkClientHeartbeat_out:
  assumes ok: "registry_ok st" and reg: "(k, a) \<in> set (clients st)"
    and out: "timed_out cfg (heap st ! a)"
  shows "checkClientHeartbeat cfg now a st = disconnectClient now k (assign a missed_one st)"
    and "clients (checkClientHeartbeat cfg now a st) = AList.delete k (clients st)"
    and "heap (checkClientHeartbeat cfg now a st) = (heap st)[a := missed_one (heap st ! a)]"
    and "sockets (checkClientHeartbeat cfg now a st) = removeAll k (sockets st)"
    and "closed (checkClientHeartbeat cfg now a st) =
           (if k \<in> set (sockets st) then closed st @ [k] else closed st)"
proof -
  note e = registry_ok_entry [OF ok reg]
  have ok1: "registry_ok (assign a missed_one st)"
    by (rule registry_ok_assign [OF ok]) (simp_all add: missed_one_def)
  show 1: "checkClientHeartbeat cfg now a st = disconnectClient now k (assign a missed_one st)"
    using out e by (simp add: checkClientHeartbeat_def timed_out_def deref_def missed_one_def)
  show "clients (checkClientHeartbeat cfg now a st) = AList.delete k (clients st)"
    unfolding 1 by (simp add: disconnectClient_clients_ok [OF ok1])
  show "heap (checkClientHeartbeat cfg now a st) = (heap st)[a := missed_one (heap st ! a)]"
    unfolding 1 by simp
  have sock: "socket (deref (assign a missed_one st) a) = k"
    using e by (simp add: deref_def missed_one_def)
  show "sockets (checkClientHeartbeat cfg now a st) = removeAll k (sockets st)"
    unfolding 1 using e sock by (simp add: disconnectClient_def)
  show "closed (checkClientHeartbeat cfg now a st) =
           (if k \<in> set (sockets st) then closed st @ [k] else closed st)"
    unfolding 1 using e sock by (simp add: disconnectClient_def)
qed

lemma checkClientHeartbeat_in:
  assumes "\<not> timed_out cfg (heap st ! a)" "a < length (heap st)"
  shows "clients (checkClientHeartbeat cfg now a st) = clients st"
    and "heap (checkClientHeartbeat cfg now a st) = (heap st)[a := checked (heap st ! a)]"
    and "sockets (checkClientHeartbeat cfg now a st) = sockets st"
    and "closed (checkClientHeartbeat cfg now a st) = closed st"
  using assms
  by (auto simp: checkClientHeartbeat_def timed_out_def deref_def missed_one_def checked_def)

lemma in_delete: "(k', b) \<in> set (AList.delete k xs) \<longleftrightarrow> (k', b) \<in> set xs \<and> k' \<noteq> k"
  by (auto simp: AList.delete_eq)

lemma checkClientHeartbeat_step:
  assumes ok: "registry_ok st" and reg0: "(k0, b0) \<in> set (clients st)"
  shows "clients (checkClientHeartbeat cfg now b0 st) =
           (if timed_out cfg (heap st ! b0) then AList.delete k0 (clients st) else clients st)"
    and "b \<noteq> b0 \<Longrightarrow> heap (checkClientHeartbeat cfg now b0 st) ! b = heap st ! b"
    and "\<not> timed_out cfg (heap st ! b0) \<Longrightarrow>
           heap (checkClientHeartbeat cfg now b0 st) ! b0 = checked (heap st ! b0)"
    and "sockets (checkClientHeartbeat cfg now b0 st) =
           (if timed_out cfg (heap st ! b0) then removeAll k0 (sockets st) else sockets st)"
    and "closed (checkClientHeartbeat cfg now b0 st) =
           (if timed_out cfg (heap st ! b0) \<and> k0 \<in> set (sockets st)
            then closed st @ [k0] else closed st)"
proof -
  have lt: "b0 < length (heap st)" using registry_ok_entry [OF ok reg0] by simp
  show "clients (checkClientHeartbeat cfg now b0 st) =
           (if timed_out cfg (heap st ! b0) then AList.delete k0 (clients st) else clients st)"
    using checkClientHeartbeat_out(2) [OF ok reg0] checkClientHeartbeat_in(1) [OF _ lt]
    by (cases "timed_out cfg (heap st ! b0)") simp_all
  show "b \<noteq> b0 \<Longrightarrow> heap (checkClientHeartbeat cfg now b0 st) ! b = heap st ! b"
    using checkClientHeartbeat_out(3) [OF ok reg0] checkClientHeartbeat_in(2) [OF _ lt]
    by (cases "timed_out cfg (heap st ! b0)") simp_all
  show "\<not> timed_out cfg (heap st ! b0) \<Longrightarrow>
           heap (checkClientHeartbeat cfg now b0 st) ! b0 = checked (heap st ! b0)"
    using checkClientHeartbeat_in(2) [OF _ lt] lt by simp
  show "sockets (checkClientHeartbeat cfg now b0 st) =
           (if timed_out cfg (heap st ! b0) then removeAll k0 (sockets st) else sockets st)"
    using checkClientHeartbeat_out(4) [OF ok reg0] checkClientHeartbeat_in(3) [OF _ lt]
    by (cases "timed_out cfg (heap st ! b0)") simp_all
  show "closed (checkClientHeartbeat cfg now b0 st) =
           (if timed_out cfg (heap st ! b0) \<and> k0 \<in> set (sockets st)
            then closed st @ [k0] else closed st)"
    using checkClientHeartbeat_out(5) [OF ok reg0] checkClientHeartbeat_in(4) [OF _ lt]
    by (cases "timed_out cfg (heap st ! b0)") simp_all
qed

lemma fold_check:
  assumes "registry_ok st" "distinct as" "set as \<subseteq> snd ` set (clients st)"
  shows "registry_ok (fold (checkClientHeartbeat cfg now) as st) \<and>
     set (clients (fold (checkClientHeartbeat cfg now) as st)) \<subseteq> set (clients st) \<and>
     set (closed st) \<subseteq> set (closed (fold (checkClientHeartbeat cfg now) as st)) \<and>
     (\<forall>k b. (k, b) \<in> set (clients st) \<longrightarrow>
        tick_outcome cfg st (fold (checkClientHeartbeat cfg now) as st) (b \<in> set as) k b)"
  using assms
proof (induction as arbitrary: st)
  case Nil
  then show ?case by (simp add: tick_outcome_def)
next
  case (Cons b0 bs)
  let ?st1 = "checkClientHeartbeat cfg now b0 st"
  let ?st' = "fold (checkClientHeartbeat cfg now) bs ?st1"
  note ok = Cons.prems(1)
  from Cons.prems(3) obtain k0 where reg0: "(k0, b0) \<in> set (clients st)" by auto
  have ok1: "registry_ok ?st1" by (rule registry_ok_checkClientHeartbeat [OF ok])
  note s1 = checkClientHeartbeat_step [OF ok reg0, where cfg = cfg and now = now]
  have keep: "(k, b) \<in> set (clients ?st1) \<and> k \<noteq> k0"
    if "(k, b) \<in> set (clients st)" "b \<noteq> b0" for k b
  proof -
    have "k \<noteq> k0" using registry_ok_key_addr [OF ok reg0] that by blast
    then show ?thesis using that(1) by (simp add: s1(1) in_delete)
  qed
  have sub1: "set bs \<subseteq> snd ` set (clients ?st1)"
  proof
    fix b assume b: "b \<in> set bs"
    with Cons.prems(2) have ne: "b \<noteq> b0" by auto
    from b Cons.prems(3) obtain k where "(k, b) \<in> set (clients st)" by auto
    from keep [OF this ne] show "b \<in> snd ` set (clients ?st1)" by force
  qed
  from Cons.prems(2) have dbs: "distinct bs" and b0: "b0 \<notin> set bs" by auto
  note IH = Cons.IH [OF ok1 dbs sub1]
  from IH have ok': "registry_ok ?st'" by (rule conjunct1)
  from IH have shrink: "set (clients ?st') \<subseteq> set (clients ?st1)" by blast
  from IH have grow: "set (closed ?st1) \<subseteq> set (closed ?st')" by blast
  from IH have each: "\<And>k b. (k, b) \<in> set (clients ?st1) \<Longrightarrow>
      tick_outcome cfg ?st1 ?st' (b \<in> set bs) k b" by blast
  have sub_st: "set (clients ?st1) \<subseteq> set (clients st)"
    by (cases "timed_out cfg (heap st ! b0)") (auto simp: s1(1) in_delete)
  have A: "set (clients ?st') \<subseteq> set (clients st)"
    using shrink sub_st by blast
  have closed_st: "set (closed st) \<subseteq> set (closed ?st1)"
    by (cases "timed_out cfg (heap st ! b0) \<and> k0 \<in> set (sockets st)") (auto simp: s1(5))
  have B: "set (closed st) \<subseteq> set (closed ?st')"
    using grow closed_st by blast
  have C: "tick_outcome cfg st ?st' (b \<in> set (b0 # bs)) k b"
    if reg: "(k, b) \<in> set (clients st)" for k b
  proof (cases "b = b0")
    case True
    then have k: "k = k0" using registry_ok_addr_key [OF ok reg0] reg by blast
    show ?thesis
    proof (cases "timed_out cfg (heap st ! b0)")
      case out: True
      have "(k0, b0) \<notin> set (clients ?st1)" by (simp add: s1(1) out in_delete)
      then have 1: "(k0, b0) \<notin> set (clients ?st')" using shrink by blast
      have "k0 \<in> set (sockets st) \<Longrightarrow> k0 \<in> set (closed ?st1)"
        by (simp add: s1(5) out)
      then have 2: "k0 \<in> set (sockets st) \<Longrightarrow> k0 \<in> set (closed ?st')"
        using grow by blast
      show ?thesis using True k out 1 2 by (simp add: tick_outcome_def)
    next
      case False
      then have "(k0, b0) \<in> set (clients ?st1)" using reg0 by (simp add: s1(1))
      from each [OF this] b0
      have "(k0, b0) \<in> set (clients ?st') \<and> heap ?st' ! b0 = heap ?st1 ! b0"
        by (simp add: tick_outcome_def)
      then show ?thesis using True k False s1(3) by (simp add: tick_outcome_def)
    qed
  next
    case False
    note kp = keep [OF reg False]
    have so: "k \<in> set (sockets ?st1) \<longleftrightarrow> k \<in> set (sockets st)"
      using kp by (cases "timed_out cfg (heap st ! b0)") (simp_all add: s1(4))
    have hp: "heap ?st1 ! b = heap st ! b"
      using s1(2) False by blast
    from kp have "tick_outcome cfg ?st1 ?st' (b \<in> set bs) k b"
      using each by blast
    then show ?thesis
      using False unfolding tick_outcome_def hp so by simp
  qed
  have "fold (checkClientHeartbeat cfg now) (b0 # bs) st = ?st'" by simp
  then show ?case
    using ok' A B C by presburger
qed

lemma registry_ok_getClient:
  "registry_ok st \<Longrightarrow> getClient st k = Some a \<longleftrightarrow> (k, a) \<in> set (clients st)"
  by (auto simp: registry_ok_def getClient_def)

lemma heartbeatDeadline_out:
  assumes ok: "registry_ok st" and reg: "(k, a) \<in> set (clients st)"
    and out: "timed_out cfg (heap st ! a)"
  shows "clients (heartbeatDeadline cfg now a st) = AList.delete k (clients st)"
    and "heap (heartbeatDeadline cfg now a st) = (heap st)[a := missed_one (heap st ! a)]"
    and "closed (heartbeatDeadline cfg now a st) =
           (if k \<in> set (sockets st) then closed st @ [k] else closed st)"
proof -
  have eq: "heartbeatDeadline cfg now a st = checkClientHeartbeat cfg now a st"
    using out registry_ok_entry [OF ok reg]
    by (simp add: heartbeatDeadline_def checkClientHeartbeat_def timed_out_def deref_def
        missed_one_def)
  show "clients (heartbeatDeadline cfg now a st) = AList.delete k (clients st)"
    and "heap (heartbeatDeadline cfg now a st) = (heap st)[a := missed_one (heap st ! a)]"
    and "closed (heartbeatDeadline cfg now a st) =
           (if k \<in> set (sockets st) then closed st @ [k] else closed st)"
    unfolding eq using checkClientHeartbeat_out [OF ok reg out] by simp_all
qed

lemma broadcast_emit_eq:
  "broadcast_emit s ev p st =
     st\<lparr>sent := sent st @ map (\<lambda>r. (r, ev, p)) (filter (\<lambda>r. r \<noteq> s) (sockets st))\<rparr>"
proof -
  have "fold (\<lambda>r. emit r ev p) rs st = st\<lparr>sent := sent st @ map (\<lambda>r. (r, ev, p)) rs\<rparr>" for rs
    by (induction rs arbitrary: st) (simp_all add: emit_def)
  then show ?thesis by (simp add: broadcast_emit_def)
qed

lemma broadcast_emit_fields [simp]:
  "heap (broadcast_emit s ev p st) = heap st"
  "clients (broadcast_emit s ev p st) = clients st"
  "sockets (broadcast_emit s ev p st) = sockets st"
  "closed (broadcast_emit s ev p st) = closed st"
  "beatTimers (broadcast_emit s ev p st) = beatTimers st"
  "typingTimeouts (broadcast_emit s ev p st) = typingTimeouts st"
  "sendIntervals (broadcast_emit s ev p st) = sendIntervals st"
  "uncaught (broadcast_emit s ev p st) = uncaught st"
  by (simp_all add: broadcast_emit_eq)

lemma general_fields [simp]:
  "heap (general now s data st) = heap st"
  "clients (general now s data st) = clients st"
  "sockets (general now s data st) = sockets st"
  "closed (general now s data st) = closed st"
  "beatTimers (general now s data st) = beatTimers st"
  "typingTimeouts (general now s data st) = typingTimeouts st"
  "sendIntervals (general now s data st) = sendIntervals st"
  by (simp_all add: general_def split: option.splits)

lemma direct_fields [simp]:
  "heap (direct now s data st) = heap st"
  "clients (direct now s data st) = clients st"
  "sockets (direct now s data st) = sockets st"
  "closed (direct now s data st) = closed st"
  "beatTimers (direct now s data st) = beatTimers st"
  "typingTimeouts (direct now s data st) = typingTimeouts st"
  "sendIntervals (direct now s data st) = sendIntervals st"
  by (simp_all add: direct_def Let_def split: option.splits)

lemma listClients_fields [simp]:
  "heap (listClients now s st) = heap st"
  "clients (listClients now s st) = clients st"
  "sockets (listClients now s st) = sockets st"
  "closed (listClients now s st) = closed st"
  "beatTimers (listClients now s st) = beatTimers st"
  "typingTimeouts (listClients now s st) = typingTimeouts st"
  "sendIntervals (listClients now s st) = sendIntervals st"
  "uncaught (listClients now s st) = uncaught st"
  by (simp_all add: listClients_def Let_def)

lemma clientPing_fields [simp]:
  "heap (clientPing now s st) = heap st"
  "clients (clientPing now s st) = clients st"
  "sockets (clientPing now s st) = sockets st"
  "closed (clientPing now s st) = closed st"
  "beatTimers (clientPing now s st) = beatTimers st"
  "typingTimeouts (clientPing now s st) = typingTimeouts st"
  "sendIntervals (clientPing now s st) = sendIntervals st"
  "uncaught (clientPing now s st) = uncaught st"
  by (simp_all add: clientPing_def)

lemma getConfig_fields [simp]:
  "heap (getConfig cfg s st) = heap st"
  "clients (getConfig cfg s st) = clients st"
  "sockets (getConfig cfg s st) = sockets st"
  "closed (getConfig cfg s st) = closed st"
  "beatTimers (getConfig cfg s st) = beatTimers st"
  "typingTimeouts (getConfig cfg s st) = typingTimeouts st"
  "sendIntervals (getConfig cfg s st) = sendIntervals st"
  "uncaught (getConfig cfg s st) = uncaught st"
  by (simp_all add: getConfig_def)

lemma broadcastToFollowers_fields [simp]:
  "heap (fst (broadcastToFollowers cfg u ev p st)) = heap st"
  "clients (fst (broadcastToFollowers cfg u ev p st)) = clients st"
  "sockets (fst (broadcastToFollowers cfg u ev p st)) = sockets st"
  "closed (fst (broadcastToFollowers cfg u ev p st)) = closed st"
  "beatTimers (fst (broadcastToFollowers cfg u ev p st)) = beatTimers st"
  "typingTimeouts (fst (broadcastToFollowers cfg u ev p st)) = typingTimeouts st"
  "uncaught (fst (broadcastToFollowers cfg u ev p st)) = uncaught st"
  by (simp_all add: broadcastToFollowers_def Let_def fold_emit_targets)

lemma notification_fields [simp]:
  "heap (notification cfg now s data st) = heap st"
  "clients (notification cfg now s data st) = clients st"
  "sockets (notification cfg now s data st) = sockets st"
  "closed (notification cfg now s data st) = closed st"
  "beatTimers (notification cfg now s data st) = beatTimers st"
  "typingTimeouts (notification cfg now s data st) = typingTimeouts st"
  by (simp_all add: notification_def Let_def split: option.splits)

lemma typingStart_fields [simp]:
  "heap (typingStart now s data st) = heap st"
  "clients (typingStart now s data st) = clients st"
  "sockets (typingStart now s data st) = sockets st"
  "closed (typingStart now s data st) = closed st"
  "beatTimers (typingStart now s data st) = beatTimers st"
  "sendIntervals (typingStart now s data st) = sendIntervals st"
  "uncaught (typingStart now s data st) = uncaught st"
  by (simp_all add: typingStart_def Let_def split: typing_check.splits)

lemma typingStop_fields [simp]:
  "heap (typingStop now s data st) = heap st"
  "clients (typingStop now s data st) = clients st"
  "sockets (typingStop now s data st) = sockets st"
  "closed (typingStop now s data st) = closed st"
  "beatTimers (typingStop now s data st) = beatTimers st"
  "sendIntervals (typingStop now s data st) = sendIntervals st"
  "uncaught (typingStop now s data st) = uncaught st"
  by (simp_all add: typingStop_def sendTypingStopToUser_def split: typing_check.splits)

lemma typingDeadline_fields [simp]:
  "heap (typingDeadline now s target st) = heap st"
  "clients (typingDeadline now s target st) = clients st"
  "sockets (typingDeadline now s target st) = sockets st"
  "closed (typingDeadline now s target st) = closed st"
  "beatTimers (typingDeadline now s target st) = beatTimers st"
  "sendIntervals (typingDeadline now s target st) = sendIntervals st"
  "uncaught (typingDeadline now s target st) = uncaught st"
  by (simp_all add: typingDeadline_def sendTypingStopToUser_def Let_def split: option.splits)

lemma sendIntervalTick_fields [simp]:
  "heap (sendIntervalTick j st) = heap st"
  "clients (sendIntervalTick j st) = clients st"
  "sockets (sendIntervalTick j st) = sockets st"
  "closed (sendIntervalTick j st) = closed st"
  "beatTimers (sendIntervalTick j st) = beatTimers st"
  "typingTimeouts (sendIntervalTick j st) = typingTimeouts st"
  "uncaught (sendIntervalTick j st) = uncaught st"
  by (simp_all add: sendIntervalTick_def split: prod.splits)

lemma recordHeartbeat_eq:
  "fst (recordHeartbeat cfg now i st) =
     (case getClient st i of None \<Rightarrow> st | Some a \<Rightarrow> assign a (recorded cfg now) st)"
  by (simp add: recordHeartbeat_def split: option.splits)

lemma recorded_idem: "recorded cfg now (recorded cfg now c) = recorded cfg now c"
  by (simp add: recorded_def Let_def)

lemma assign_twice:
  "(\<And>c. f (f c) = f c) \<Longrightarrow> assign a f (assign a f st) = assign a f st"
  by (cases "a < length (heap st)") (simp_all add: assign_def list_update_beyond)

lemma heartbeatAck_eq:
  "heartbeatAck cfg now s data st =
     (case getClient st s of None \<Rightarrow> st | Some a \<Rightarrow> assign a (recorded cfg now) st)"
proof (cases "getClient st s")
  case None
  then show ?thesis
    by (simp add: heartbeatAck_def heartbeatAck_setup_def heartbeatAck_system_def
        recordHeartbeat_eq split: option.splits)
next
  case (Some a)
  then show ?thesis
    by (simp add: heartbeatAck_def heartbeatAck_setup_def heartbeatAck_system_def
        recordHeartbeat_eq assign_twice recorded_idem split: option.splits)
qed

lemma setData_heap_clients:
  "(heap (setData cfg now s data st) = heap st \<and> clients (setData cfg now s data st) = clients st) \<or>
   (\<exists>a md. getClient st s = Some a \<and>
      heap (setData cfg now s data st) = heap st @ [(deref st a)\<lparr>metadata := Some md\<rparr>] \<and>
      clients (setData cfg now s data st) = AList.update s (length (heap st)) (clients st))"
proof (cases "getClient st s")
  case None
  then show ?thesis
    by (auto simp: setData_def Let_def updateClient_None split: option.splits jsval.splits)
next
  case (Some a)
  then show ?thesis
    by (auto simp: setData_def Let_def updateClient_Some spread_client_metadata
        split: option.splits jsval.splits)
qed

lemma setData_fields [simp]:
  "sockets (setData cfg now s data st) = sockets st"
  "closed (setData cfg now s data st) = closed st"
  "beatTimers (setData cfg now s data st) = beatTimers st"
  "typingTimeouts (setData cfg now s data st) = typingTimeouts st"
  "sendIntervals (setData cfg now s data st) = sendIntervals st"
  by (cases "getClient st s";
      simp add: setData_def Let_def updateClient_None updateClient_Some
        split: option.splits jsval.splits)+

lemma in_update:
  "distinct (map fst xs) \<Longrightarrow>
   (k', b) \<in> set (AList.update k v xs) \<longleftrightarrow> (k' = k \<and> b = v) \<or> (k' \<noteq> k \<and> (k', b) \<in> set xs)"
  by (induction xs) (auto simp: rev_image_eqI)

lemma distinct_snd_update:
  "distinct (map snd xs) \<Longrightarrow> v \<notin> snd ` set xs \<Longrightarrow> distinct (map snd (AList.update k v xs))"
proof (induction xs)
  case Nil
  then show ?case by simp
next
  case (Cons x xs)
  have "set (AList.update k v xs) \<subseteq> insert (k, v) (set xs)"
    by (induction xs) auto
  then have "snd ` set (AList.update k v xs) \<subseteq> insert v (snd ` set xs)"
    by force
  with Cons show ?case by auto
qed

lemma registry_ok_new_record:
  assumes ok: "registry_ok st"
    and h: "heap st' = heap st @ [c]"
    and c: "clients st' = AList.update s (length (heap st)) (clients st)"
    and "id_client c = s" "socket c = s"
  shows "registry_ok st'"
proof -
  from ok have d1: "distinct (map fst (clients st))" and d2: "distinct (map snd (clients st))"
    and old: "\<And>k a. (k, a) \<in> set (clients st) \<Longrightarrow>
        a < length (heap st) \<and> id_client (heap st ! a) = k \<and> socket (heap st ! a) = k"
    by (auto simp: registry_ok_def)
  have fresh: "length (heap st) \<notin> snd ` set (clients st)"
    using old by fastforce
  have 1: "distinct (map fst (clients st'))"
    by (simp add: c distinct_update d1)
  have 2: "distinct (map snd (clients st'))"
    unfolding c by (rule distinct_snd_update [OF d2 fresh])
  have 3: "a < length (heap st') \<and> id_client (heap st' ! a) = k \<and> socket (heap st' ! a) = k"
    if "(k, a) \<in> set (clients st')" for k a
    using that assms(4,5) old [of k a] by (auto simp: c h in_update [OF d1] nth_append)
  show ?thesis
    unfolding registry_ok_def using 1 2 3 by blast
qed

lemma registry_ok_addClient:
  assumes "registry_ok st"
  shows "registry_ok (addClient now s md st)"
  using assms
proof (rule registry_ok_new_record)
  show "heap (addClient now s md st) = heap st @
          [\<lparr>id_client = s, socket = s, connectTime = now, metadata = md,
            lastHeartbeat = Some now, heartbeatMissed = 0, heartbeatPending = False\<rparr>]"
    by (simp add: addClient_def)
  show "clients (addClient now s md st) = AList.update s (length (heap st)) (clients st)"
    by (simp add: addClient_def)
qed simp_all

lemma registry_ok_onConnection: "registry_ok st \<Longrightarrow> registry_ok (onConnection now s st)"
proof -
  assume ok: "registry_ok st"
  let ?st1 = "st\<lparr>sockets := sockets st @ [s], totalConnections := totalConnections st + 1,
                 activeConnections := activeConnections st + 1\<rparr>"
  have "registry_ok ?st1" using ok by (simp add: registry_ok_def)
  then have "registry_ok (addClient now s None ?st1)" by (rule registry_ok_addClient)
  then show ?thesis
    by (simp add: onConnection_def Let_def registry_ok_def)
qed

lemma registry_ok_socket_close: "registry_ok st \<Longrightarrow> registry_ok (socket_close now s st)"
  by (cases "s \<in> set (sockets st)")
    (auto intro: registry_ok_delete [where i = s] registry_ok_heap_clients)

lemma registry_ok_setData: "registry_ok st \<Longrightarrow> registry_ok (setData cfg now s data st)"
proof -
  assume ok: "registry_ok st"
  from setData_heap_clients [of cfg now s data st] show ?thesis
  proof (elim disjE exE conjE)
    assume "heap (setData cfg now s data st) = heap st"
      "clients (setData cfg now s data st) = clients st"
    then show ?thesis using ok by (simp add: registry_ok_def)
  next
    fix a md
    assume g: "getClient st s = Some a"
      and h: "heap (setData cfg now s data st) = heap st @ [(deref st a)\<lparr>metadata := Some md\<rparr>]"
      and c: "clients (setData cfg now s data st) = AList.update s (length (heap st)) (clients st)"
    from g ok have "(s, a) \<in> set (clients st)" by (simp add: registry_ok_getClient)
    from registry_ok_entry [OF ok this]
    have "id_client ((deref st a)\<lparr>metadata := Some md\<rparr>) = s"
      "socket ((deref st a)\<lparr>metadata := Some md\<rparr>) = s"
      by (simp_all add: deref_def)
    with ok h c show ?thesis by (rule registry_ok_new_record)
  qed
qed

lemma registry_ok_heartbeatAck:
  "registry_ok st \<Longrightarrow> registry_ok (heartbeatAck cfg now s data st)"
  by (auto simp: heartbeatAck_eq recorded_def Let_def split: option.splits
      intro!: registry_ok_assign)

lemma registry_ok_onMessage:
  assumes ok: "registry_ok st"
  shows "registry_ok (onMessage cfg now s ev data st)"
proof -
  note same = registry_ok_heap_clients [OF ok]
  show ?thesis
    unfolding onMessage_def
    by (simp add: registry_ok_setData [OF ok] registry_ok_heartbeatAck [OF ok] ok same)
qed

lemma registry_ok_handle:
  assumes ok: "registry_ok st"
  shows "registry_ok (handle cfg now e st)"
proof (cases e)
  case (Connect s)
  then show ?thesis using ok by (simp add: registry_ok_onConnection)
next
  case (Disconnect s)
  then show ?thesis using ok by (simp add: registry_ok_socket_close)
next
  case (Message s ev data)
  then show ?thesis using ok by (simp add: registry_ok_onMessage)
next
  case HeartbeatInterval
  then show ?thesis
    using ok by (simp add: checkAllClientHeartbeats_def registry_ok_fold_check)
next
  case (HeartbeatDeadline a)
  have "registry_ok (st\<lparr>beatTimers := remove1 a (beatTimers st)\<rparr>)"
    using ok by (simp add: registry_ok_def)
  then show ?thesis
    using ok HeartbeatDeadline by (simp add: registry_ok_heartbeatDeadline)
next
  case (TypingDeadline s target)
  then show ?thesis using registry_ok_heap_clients [OF ok] by simp
next
  case (SendInterval j)
  then show ?thesis using registry_ok_heap_clients [OF ok] by simp
qed

lemma registry_ok_step: "registry_ok st \<Longrightarrow> registry_ok (step cfg te st)"
  by (simp add: step_def registry_ok_handle)

lemma registry_ok_run: "registry_ok st \<Longrightarrow> registry_ok (run cfg es st)"
  unfolding run_def by (induction es arbitrary: st) (simp_all add: registry_ok_step)

lemma registry_ok_initial: "registry_ok initial"
  by (simp add: registry_ok_def initial_def)

lemma map_of_delete_Some: "map_of (AList.delete k xs) k' = Some v \<Longrightarrow> map_of xs k' = Some v"
  by (simp add: delete_conv' split: if_splits)

lemma getClient_disconnectClient_Some:
  "getClient (disconnectClient now i st) k = Some a \<Longrightarrow> getClient st k = Some a"
  by (auto simp: getClient_def disconnectClient_clients dest: map_of_delete_Some
      split: option.splits if_splits)

lemma missed_after_message:
  assumes ok: "registry_ok st" and reg: "(s, a) \<in> set (clients st)"
    and ack: "\<not> (s' = s \<and> ev = ''system:heartbeat-ack'')"
    and after: "getClient (onMessage cfg now s' ev data st) s = Some a'"
  shows "heartbeatMissed (heap st ! a) \<le> heartbeatMissed (heap (onMessage cfg now s' ev data st) ! a')"
proof -
  note e = registry_ok_entry [OF ok reg]
  consider (ack) "ev = ''system:heartbeat-ack''" | (set) "ev = ''system:setData''"
    | (other) "ev \<noteq> ''system:heartbeat-ack''" "ev \<noteq> ''system:setData''"
    by blast
  then show ?thesis
  proof cases
    case ack
    with \<open>\<not> (s' = s \<and> ev = ''system:heartbeat-ack'')\<close> have ne: "s' \<noteq> s" by blast
    have m: "onMessage cfg now s' ev data st =
        (case getClient st s' of None \<Rightarrow> st | Some b \<Rightarrow> assign b (recorded cfg now) st)"
      using ack by (simp add: onMessage_def heartbeatAck_eq)
    show ?thesis
    proof (cases "getClient st s'")
      case None
      with m after e show ?thesis by simp
    next
      case (Some b)
      then have "(s', b) \<in> set (clients st)" using ok by (simp add: registry_ok_getClient)
      with registry_ok_addr_key [OF ok reg] ne have "b \<noteq> a" by blast
      with m Some after e show ?thesis by simp
    qed
  next
    case set
    then have m: "onMessage cfg now s' ev data st = setData cfg now s' data st"
      by (simp add: onMessage_def)
    from setData_heap_clients [of cfg now s' data st] show ?thesis
    proof (elim disjE exE conjE)
      assume "heap (setData cfg now s' data st) = heap st"
        "clients (setData cfg now s' data st) = clients st"
      with after e show ?thesis by (simp add: m getClient_def)
    next
      fix b md
      assume g: "getClient st s' = Some b"
        and h: "heap (setData cfg now s' data st) = heap st @ [(deref st b)\<lparr>metadata := Some md\<rparr>]"
        and c: "clients (setData cfg now s' data st) = AList.update s' (length (heap st)) (clients st)"
      from after have "map_of (clients (setData cfg now s' data st)) s = Some a'"
        by (simp add: m getClient_def)
      then have upd: "((map_of (clients st))(s' \<mapsto> length (heap st))) s = Some a'"
        by (simp only: c update_conv')
      show ?thesis
      proof (cases "s' = s")
        case True
        with g e have "b = a" by simp
        moreover from upd True have "a' = length (heap st)" by simp
        ultimately show ?thesis by (simp add: m h deref_def)
      next
        case False
        with upd e have "a' = a" by (simp add: getClient_def)
        with e show ?thesis by (simp add: m h nth_append)
      qed
    qed
  next
    case other
    then have "heap (onMessage cfg now s' ev data st) = heap st"
      "clients (onMessage cfg now s' ev data st) = clients st"
      by (simp_all add: onMessage_def)
    with after e show ?thesis by (simp add: getClient_def)
  qed
qed

lemma missed_after_deadline:
  assumes after: "getClient (heartbeatDeadline cfg now b st) s = Some a'"
    and reg: "getClient st s = Some a"
  shows "heartbeatMissed (heap st ! a) \<le> heartbeatMissed (heap (heartbeatDeadline cfg now b st) ! a')"
proof -
  have same: "a' = a"
    using after reg
    by (auto simp: heartbeatDeadline_def Let_def split: if_splits
        dest!: getClient_disconnectClient_Some)
  have "heartbeatMissed (heap st ! a) \<le> heartbeatMissed ((heap st)[b := missed_one (heap st ! b)] ! a)"
    by (cases "b = a"; cases "b < length (heap st)")
      (simp_all add: missed_one_def list_update_beyond)
  then show ?thesis
    unfolding same by (simp add: heartbeatDeadline_def Let_def)
qed

lemma missed_after_tick:
  assumes ok: "registry_ok st" and reg: "(s, a) \<in> set (clients st)"
    and after: "getClient (checkAllClientHeartbeats cfg now st) s = Some a'"
  shows "heartbeatMissed (heap st ! a) \<le> heartbeatMissed (heap (checkAllClientHeartbeats cfg now st) ! a')"
proof -
  let ?t = "checkAllClientHeartbeats cfg now st"
  have dist: "distinct (map snd (clients st))"
    using ok by (simp add: registry_ok_def)
  have t: "?t = fold (checkClientHeartbeat cfg now) (map snd (clients st)) st"
    by (simp add: checkAllClientHeartbeats_def)
  note f = fold_check [OF ok dist, of cfg now, folded t]
  from f have okt: "registry_ok ?t" and sub: "set (clients ?t) \<subseteq> set (clients st)"
    and each: "tick_outcome cfg st ?t (a \<in> set (map snd (clients st))) s a"
    using reg by auto
  have mem: "a \<in> set (map snd (clients st))" using reg by force
  from after okt have "(s, a') \<in> set (clients ?t)" by (simp add: registry_ok_getClient)
  with sub have "(s, a') \<in> set (clients st)" by blast
  with registry_ok_key_addr [OF ok reg] have same: "a' = a" by blast
  with \<open>(s, a') \<in> set (clients ?t)\<close> each mem
  have "heap ?t ! a = checked (heap st ! a)"
    by (auto simp: tick_outcome_def split: if_splits)
  then show ?thesis
    unfolding same by (simp add: checked_def missed_one_def)
qed

lemma missed_only_grows:
  assumes ok: "registry_ok st" and reg: "(s, a) \<in> set (clients st)"
    and ack: "\<forall>data. e \<noteq> Message s ''system:heartbeat-ack'' data" and con: "e \<noteq> Connect s"
    and after: "getClient (handle cfg now e st) s = Some a'"
  shows "heartbeatMissed (heap st ! a) \<le> heartbeatMissed (heap (handle cfg now e st) ! a')"
proof (cases e)
  case (Connect s')
  note e = registry_ok_entry [OF ok reg]
  from Connect con have ne: "s' \<noteq> s" by simp
  show ?thesis
  proof (cases "s' \<in> set (sockets st)")
    case True
    with Connect after e show ?thesis by simp
  next
    case False
    have h: "heap (onConnection now s' st) ! a = heap st ! a"
      using e by (simp add: onConnection_def Let_def addClient_def nth_append)
    have "getClient (onConnection now s' st) s = getClient st s"
      using ne by (simp add: onConnection_def Let_def addClient_def getClient_def update_conv')
    with Connect False after e h show ?thesis by simp
  qed
next
  case (Disconnect s')
  note e = registry_ok_entry [OF ok reg]
  from after Disconnect have "getClient st s = Some a'"
    by (auto simp: getClient_def split: if_splits dest: map_of_delete_Some)
  with e Disconnect show ?thesis by simp
next
  case (Message s' ev data)
  show ?thesis
  proof (cases "s' \<in> set (sockets st)")
    case True
    from ack Message have "\<not> (s' = s \<and> ev = ''system:heartbeat-ack'')" by blast
    from missed_after_message [OF ok reg this] after Message True show ?thesis by simp
  next
    case False
    with Message after registry_ok_entry [OF ok reg] show ?thesis by simp
  qed
next
  case HeartbeatInterval
  show ?thesis
  proof (cases "heartbeat_enabled cfg")
    case True
    with missed_after_tick [OF ok reg] after HeartbeatInterval show ?thesis by simp
  next
    case False
    with HeartbeatInterval after registry_ok_entry [OF ok reg] show ?thesis by simp
  qed
next
  case (HeartbeatDeadline b)
  note e = registry_ok_entry [OF ok reg]
  show ?thesis
  proof (cases "b \<in> set (beatTimers st)")
    case True
    let ?st0 = "st\<lparr>beatTimers := remove1 b (beatTimers st)\<rparr>"
    have "getClient ?st0 s = Some a" using e by (simp add: getClient_def)
    from missed_after_deadline [OF _ this, of cfg now b a'] after HeartbeatDeadline True
    show ?thesis by simp
  next
    case False
    with HeartbeatDeadline after e show ?thesis by simp
  qed
next
  case (TypingDeadline s' target)
  with after registry_ok_entry [OF ok reg] show ?thesis by (simp add: getClient_def)
next
  case (SendInterval j)
  with after registry_ok_entry [OF ok reg] show ?thesis by (simp add: getClient_def)
qed

lemma show_nat_160: "show_nat 160 = ''160''"
  by code_simp

lemma keys_shrink_refl: "keys_shrink st st"
  unfolding keys_shrink_def by (rule exI [of _ "\<lambda>_. True"]) simp

lemma keys_shrink_same: "clients st' = clients st \<Longrightarrow> keys_shrink st st'"
  unfolding keys_shrink_def by (rule exI [of _ "\<lambda>_. True"]) simp

lemma keys_shrink_trans: "keys_shrink st st' \<Longrightarrow> keys_shrink st' st'' \<Longrightarrow> keys_shrink st st''"
  unfolding keys_shrink_def by (metis filter_filter)

lemma keys_delete: "map fst (AList.delete k xs) = filter (\<lambda>k'. k' \<noteq> k) (map fst xs)"
  by (induction xs) auto

lemma keys_shrink_delete: "clients st' = AList.delete k (clients st) \<Longrightarrow> keys_shrink st st'"
  unfolding keys_shrink_def by (rule exI [of _ "\<lambda>k'. k' \<noteq> k"]) (simp add: keys_delete)

lemma keys_shrink_disconnectClient: "keys_shrink st (disconnectClient now i st)"
proof (cases "getClient st i")
  case None
  then show ?thesis by (simp add: disconnectClient_clients keys_shrink_same)
next
  case (Some a)
  show ?thesis
  proof (cases "socket (deref st a) \<in> set (sockets st)")
    case True
    have "keys_shrink st (st\<lparr>clients := AList.delete (socket (deref st a)) (clients st)\<rparr>)"
      by (rule keys_shrink_delete) simp
    moreover have "keys_shrink (st\<lparr>clients := AList.delete (socket (deref st a)) (clients st)\<rparr>)
        (disconnectClient now i st)"
      by (rule keys_shrink_delete [where k = i]) (simp add: disconnectClient_clients Some True)
    ultimately show ?thesis by (rule keys_shrink_trans)
  next
    case False
    show ?thesis
      by (rule keys_shrink_delete [where k = i]) (simp add: disconnectClient_clients Some False)
  qed
qed

lemma keys_shrink_clients: "keys_shrink st st' \<Longrightarrow> clients st'' = clients st \<Longrightarrow> keys_shrink st'' st'"
  by (simp add: keys_shrink_def)

lemma keys_shrink_checkClientHeartbeat: "keys_shrink st (checkClientHeartbeat cfg now a st)"
proof -
  have "keys_shrink (assign a missed_one st) (disconnectClient now i (assign a missed_one st))" for i
    by (rule keys_shrink_disconnectClient)
  then have "keys_shrink st (disconnectClient now i (assign a missed_one st))" for i
    by (rule keys_shrink_clients) simp
  then show ?thesis
    by (simp add: checkClientHeartbeat_def Let_def keys_shrink_same)
qed

lemma keys_shrink_heartbeatDeadline: "keys_shrink st (heartbeatDeadline cfg now a st)"
proof -
  have "keys_shrink (assign a missed_one st) (disconnectClient now i (assign a missed_one st))" for i
    by (rule keys_shrink_disconnectClient)
  then have "keys_shrink st (disconnectClient now i (assign a missed_one st))" for i
    by (rule keys_shrink_clients) simp
  then show ?thesis
    by (simp add: heartbeatDeadline_def Let_def keys_shrink_same keys_shrink_refl)
qed

lemma keys_shrink_fold_check: "keys_shrink st (fold (checkClientHeartbeat cfg now) as st)"
proof (induction as arbitrary: st)
  case Nil
  show ?case by (simp add: keys_shrink_refl)
next
  case (Cons a as)
  show ?case
    using keys_shrink_checkClientHeartbeat Cons.IH by (simp, rule keys_shrink_trans)
qed

lemma keys_shrink_setData: "keys_shrink st (setData cfg now s data st)"
proof -
  from setData_heap_clients [of cfg now s data st] show ?thesis
  proof (elim disjE exE conjE)
    assume "clients (setData cfg now s data st) = clients st"
    then show ?thesis by (rule keys_shrink_same)
  next
    fix a md
    assume g: "getClient st s = Some a"
      and c: "clients (setData cfg now s data st) = AList.update s (length (heap st)) (clients st)"
    from g have "s \<in> fst ` set (clients st)"
      by (auto simp: getClient_def dest: map_of_SomeD intro: rev_image_eqI)
    then have "map fst (clients (setData cfg now s data st)) = map fst (clients st)"
      by (simp add: c update_keys)
    then show ?thesis
      unfolding keys_shrink_def by (intro exI [of _ "\<lambda>_. True"]) simp
  qed
qed

lemma keys_shrink_onMessage: "keys_shrink st (onMessage cfg now s ev data st)"
  unfolding onMessage_def
  by (simp add: keys_shrink_setData keys_shrink_same keys_shrink_refl heartbeatAck_eq
      split: option.splits)

text \<open>A step keeps the order of the handles that stay, or puts one new handle at the end.\<close>

lemma handle_keys:
  "keys_shrink st (handle cfg now e st) \<or>
   (\<exists>s. s \<notin> fst ` set (clients st) \<and>
        map fst (clients (handle cfg now e st)) = map fst (clients st) @ [s])"
proof (cases e)
  case (Connect s)
  have c: "map fst (clients (onConnection now s st)) =
      (if s \<in> fst ` set (clients st) then map fst (clients st) else map fst (clients st) @ [s])"
    by (simp add: onConnection_def Let_def addClient_def update_keys)
  show ?thesis
  proof (cases "s \<in> set (sockets st) \<or> s \<in> fst ` set (clients st)")
    case True
    then have "map fst (clients (handle cfg now e st)) = map fst (clients st)"
      using Connect c by auto
    then have "keys_shrink st (handle cfg now e st)"
      unfolding keys_shrink_def by (intro exI [of _ "\<lambda>_. True"]) simp
    then show ?thesis ..
  next
    case False
    then show ?thesis using Connect c by auto
  qed
next
  case (Disconnect s)
  then show ?thesis
    by (cases "s \<in> set (sockets st)") (simp_all add: keys_shrink_delete keys_shrink_same)
next
  case (Message s ev data)
  then show ?thesis by (simp add: keys_shrink_onMessage keys_shrink_refl)
next
  case HeartbeatInterval
  then show ?thesis
    by (simp add: checkAllClientHeartbeats_def keys_shrink_fold_check keys_shrink_refl)
next
  case (HeartbeatDeadline a)
  have "keys_shrink (st\<lparr>beatTimers := remove1 a (beatTimers st)\<rparr>)
     (heartbeatDeadline cfg now a (st\<lparr>beatTimers := remove1 a (beatTimers st)\<rparr>))"
    by (rule keys_shrink_heartbeatDeadline)
  then have "keys_shrink st (heartbeatDeadline cfg now a (st\<lparr>beatTimers := remove1 a (beatTimers st)\<rparr>))"
    by (rule keys_shrink_clients) simp
  then show ?thesis using HeartbeatDeadline by (simp add: keys_shrink_refl)
next
  case (TypingDeadline s target)
  then show ?thesis by (simp add: keys_shrink_same)
next
  case (SendInterval j)
  then show ?thesis by (simp add: keys_shrink_same)
qed

lemma run_snoc: "run cfg (es @ [e]) st = step cfg e (run cfg es st)"
  by (simp add: run_def)

lemma step_keys:
  "keys_shrink st (step cfg te st) \<or>
   (\<exists>s. s \<notin> fst ` set (clients st) \<and>
        map fst (clients (step cfg te st)) = map fst (clients st) @ [s])"
  using handle_keys [of st cfg "fst te" "snd te"] by (simp add: step_def keys_shrink_refl)

lemma sorted_wrt_measure_cong:
  "sorted_wrt (\<lambda>k k'. f k < f k') xs \<Longrightarrow> (\<And>k. k \<in> set xs \<Longrightarrow> g k = f k) \<Longrightarrow>
   sorted_wrt (\<lambda>k k'. (g k :: nat) < g k') xs"
  by (induction xs) auto

lemma added_in_order:
  "sorted_wrt (\<lambda>k k'. added_at cfg (rev es) k < added_at cfg (rev es) k')
     (map fst (clients (run cfg es initial))) \<and>
   (\<forall>k\<in>set (map fst (clients (run cfg es initial))). added_at cfg (rev es) k \<le> length es)"
proof (induction es rule: rev_induct)
  case Nil
  show ?case by (simp add: run_def initial_def)
next
  case (snoc e es)
  define st where "st = run cfg es initial"
  define st' where "st' = run cfg (es @ [e]) initial"
  define old where "old = added_at cfg (rev es)"
  define new where "new = added_at cfg (rev (es @ [e]))"
  from snoc have sorted: "sorted_wrt (\<lambda>k k'. old k < old k') (map fst (clients st))"
    and bound: "\<And>k. k \<in> set (map fst (clients st)) \<Longrightarrow> old k \<le> length es"
    unfolding st_def old_def by blast+
  have new_old: "new k = old k" if "k \<in> set (map fst (clients st))" for k
    using that by (simp add: new_def old_def st_def)
  have new_fresh: "new k = Suc (length es)" if "k \<notin> set (map fst (clients st))" for k
    using that by (simp add: new_def old_def st_def)
  have st': "st' = step cfg e st"
    unfolding st'_def st_def by (rule run_snoc)
  have "sorted_wrt (\<lambda>k k'. new k < new k') (map fst (clients st')) \<and>
        (\<forall>k\<in>set (map fst (clients st')). new k \<le> Suc (length es))"
    using step_keys [of st cfg e]
  proof (elim disjE exE conjE)
    assume "keys_shrink st (step cfg e st)"
    then obtain P where P: "map fst (clients st') = filter P (map fst (clients st))"
      unfolding st' keys_shrink_def by blast
    have sub: "k \<in> set (map fst (clients st))" if "k \<in> set (map fst (clients st'))" for k
      using that unfolding P by simp
    have "sorted_wrt (\<lambda>k k'. old k < old k') (map fst (clients st'))"
      unfolding P using sorted by (rule sorted_wrt_filter)
    then have "sorted_wrt (\<lambda>k k'. new k < new k') (map fst (clients st'))"
      by (rule sorted_wrt_measure_cong) (rule new_old [OF sub])
    moreover have "new k \<le> Suc (length es)" if "k \<in> set (map fst (clients st'))" for k
      using bound [OF sub [OF that]] new_old [OF sub [OF that]] by simp
    ultimately show ?thesis by blast
  next
    fix s
    assume "s \<notin> fst ` set (clients st)"
      and app: "map fst (clients (step cfg e st)) = map fst (clients st) @ [s]"
    then have fresh: "s \<notin> set (map fst (clients st))" by simp
    have keys: "map fst (clients st') = map fst (clients st) @ [s]"
      unfolding st' by (rule app)
    have "sorted_wrt (\<lambda>k k'. new k < new k') (map fst (clients st))"
      using sorted by (rule sorted_wrt_measure_cong) (rule new_old)
    moreover have "new k < new s" if "k \<in> set (map fst (clients st))" for k
      using bound [OF that] new_old [OF that] new_fresh [OF fresh] by simp
    ultimately have "sorted_wrt (\<lambda>k k'. new k < new k') (map fst (clients st'))"
      unfolding keys by (simp add: sorted_wrt_append)
    moreover have "new k \<le> Suc (length es)" if "k \<in> set (map fst (clients st'))" for k
    proof (cases "k = s")
      case True
      then show ?thesis using new_fresh [OF fresh] by simp
    next
      case False
      with that have "k \<in> set (map fst (clients st))" unfolding keys by simp
      from bound [OF this] new_old [OF this] show ?thesis by simp
    qed
    ultimately show ?thesis by blast
  qed
  then show ?case
    unfolding st'_def new_def by simp
qed

lemma find_first_of_sorted:
  assumes "sorted_wrt R (map fst xs)" "find P (map snd xs) = Some a"
  shows "\<exists>k. (k, a) \<in> set xs \<and> P a \<and> (\<forall>k' b. (k', b) \<in> set xs \<and> P b \<and> k' \<noteq> k \<longrightarrow> R k k')"
  using assms
proof (induction xs)
  case Nil
  then show ?case by simp
next
  case (Cons x xs)
  obtain k0 a0 where x: "x = (k0, a0)" by (cases x)
  show ?case
  proof (cases "P a0")
    case True
    with Cons.prems x have a: "a = a0" by simp
    have "R k0 k'" if "(k', b) \<in> set (x # xs) \<and> P b \<and> k' \<noteq> k0" for k' b
    proof -
      from that x have "(k', b) \<in> set xs" by auto
      then have "k' \<in> set (map fst xs)" by force
      with Cons.prems(1) x show ?thesis by auto
    qed
    with True a x show ?thesis by (intro exI [of _ k0]) auto
  next
    case False
    with Cons.prems x have "find P (map snd xs) = Some a" "sorted_wrt R (map fst xs)"
      by simp_all
    from Cons.IH [OF this(2,1)] obtain k where k: "(k, a) \<in> set xs" "P a"
      "\<forall>k' b. (k', b) \<in> set xs \<and> P b \<and> k' \<noteq> k \<longrightarrow> R k k'" by blast
    have "R k k'" if "(k', b) \<in> set (x # xs) \<and> P b \<and> k' \<noteq> k" for k' b
      using that x False k(3) by auto
    with k show ?thesis by (intro exI [of _ k]) auto
  qed
qed

lemma sam_size: "length (stringify sam) = 18"
  unfolding sam_def by code_simp

lemma sam_props: "truthy sam" "is_object sam" "get_prop sam ''following'' = None"
  "own_entries sam = [(''username'', JStr ''sam'')]"
  "get_prop sam ''username'' = Some (JStr ''sam'')"
  by (simp_all add: sam_def)

lemma setData_sam:
  "getClient st s = Some a \<Longrightarrow>
   setData defaults now s (Some sam) st =
     emit s ''system:dataSet'' (dataSet_event now sam)
       (st\<lparr>heap := heap st @ [(deref st a)\<lparr>metadata := Some (updatedMetadata now (currentMetadata st s) sam)\<rparr>],
           clients := AList.update s (length (heap st)) (clients st)\<rparr>)"
  by (simp add: setData_def sam_size sam_props defaults_def updateClient_Some
      spread_client_metadata truthy_opt_def or_else_def)

lemma onConnection_eq:
  "heap (onConnection now s st) = heap st @
     [\<lparr>id_client = s, socket = s, connectTime = now, metadata = None,
       lastHeartbeat = Some now, heartbeatMissed = 0, heartbeatPending = False\<rparr>]"
  "clients (onConnection now s st) = AList.update s (length (heap st)) (clients st)"
  "sockets (onConnection now s st) = sockets st @ [s]"
  "uncaught (onConnection now s st) = uncaught st"
  by (simp_all add: onConnection_def Let_def addClient_def)

lemma setData_sam_fields:
  assumes "getClient st s = Some a"
  shows "heap (setData defaults now s (Some sam) st) =
           heap st @ [(deref st a)\<lparr>metadata := Some (updatedMetadata now (currentMetadata st s) sam)\<rparr>]"
    and "clients (setData defaults now s (Some sam) st) = AList.update s (length (heap st)) (clients st)"
    and "uncaught (setData defaults now s (Some sam) st) = uncaught st"
  by (simp_all add: setData_sam [OF assms])

lemma run_same_name:
  "run defaults [] initial = initial"
  "run defaults [(10, Connect ''a'')] initial = w1"
  "run defaults [(10, Connect ''a''), (20, Connect ''b'')] initial = w2"
  "run defaults [(10, Connect ''a''), (20, Connect ''b''),
     (30, Message ''b'' ''system:setData'' (Some sam))] initial = w3"
  "run defaults same_name initial = w4"
  by (simp_all add: run_def same_name_def w1_def w2_def w3_def w4_def)

lemma w1:
  "clients w1 = [(''a'', 0)]" "length (heap w1) = 1" "sockets w1 = [''a'']" "\<not> uncaught w1"
  by (simp_all add: w1_def step_def onConnection_eq) (simp_all add: initial_def)

lemma w2:
  "clients w2 = [(''a'', 0), (''b'', 1)]" "length (heap w2) = 2" "sockets w2 = [''a'', ''b'']"
  "\<not> uncaught w2"
  by (simp_all add: w2_def step_def onConnection_eq w1)

lemma w3:
  "clients w3 = [(''a'', 0), (''b'', 2)]" "length (heap w3) = 3" "sockets w3 = [''a'', ''b'']"
  "\<not> uncaught w3" "meta_prop (heap w3 ! 2) ''username'' = Some (JStr ''sam'')"
proof -
  have g: "getClient w2 ''b'' = Some 1"
    by (simp add: getClient_def w2)
  have r: "w3 = setData defaults 30 ''b'' (Some sam) w2"
    by (simp add: w3_def step_def w2 onMessage_def)
  have m: "map_of (updatedMetadata now cur sam) ''username'' = Some (JStr ''sam'')" for now cur
    by (simp add: map_of_updatedMetadata keys_of_def sam_props)
  show "clients w3 = [(''a'', 0), (''b'', 2)]" "length (heap w3) = 3"
    "sockets w3 = [''a'', ''b'']" "\<not> uncaught w3"
    unfolding r by (simp_all add: setData_sam_fields [OF g] w2)
  show "meta_prop (heap w3 ! 2) ''username'' = Some (JStr ''sam'')"
    unfolding r by (simp add: setData_sam_fields [OF g] w2 nth_append meta_prop_def m)
qed

lemma w4:
  "clients w4 = [(''a'', 3), (''b'', 2)]"
  "meta_prop (heap w4 ! 2) ''username'' = Some (JStr ''sam'')"
  "meta_prop (heap w4 ! 3) ''username'' = Some (JStr ''sam'')"
proof -
  have g: "getClient w3 ''a'' = Some 0"
    by (simp add: getClient_def w3)
  have r: "w4 = setData defaults 40 ''a'' (Some sam) w3"
    by (simp add: w4_def step_def w3 onMessage_def)
  have m: "map_of (updatedMetadata now cur sam) ''username'' = Some (JStr ''sam'')" for now cur
    by (simp add: map_of_updatedMetadata keys_of_def sam_props)
  show "clients w4 = [(''a'', 3), (''b'', 2)]"
    unfolding r by (simp add: setData_sam_fields [OF g] w3)
  show "meta_prop (heap w4 ! 2) ''username'' = Some (JStr ''sam'')"
    unfolding r by (simp add: setData_sam_fields [OF g] w3 nth_append)
  show "meta_prop (heap w4 ! 3) ''username'' = Some (JStr ''sam'')"
    unfolding r by (simp add: setData_sam_fields [OF g] w3 nth_append meta_prop_def m)
qed

subsection \<open>Typing updates and timers\<close>


































lemma quiet_sent: "sent st' = sent st \<Longrightarrow> quiet s st st'"
  by (simp add: quiet_def)



lemma quiet_cong: "sent st'' = sent st' \<Longrightarrow> quiet s st st' \<Longrightarrow> quiet s st st''"
  by (simp add: quiet_def)

























lemma disconnectClient_sendIntervals [simp]:
  "sendIntervals (checkClientHeartbeat cfg now a st) = sendIntervals st"
  "sendIntervals (heartbeatDeadline cfg now a st) = sendIntervals st"
  by (simp_all add: checkClientHeartbeat_def heartbeatDeadline_def Let_def)

lemma fold_check_sendIntervals [simp]:
  "sendIntervals (fold (checkClientHeartbeat cfg now) as st) = sendIntervals st"
  by (induction as arbitrary: st) simp_all
















subsection \<open>The ticks of a throttled fan-out\<close>







section \<open>The claims\<close>

subsection \<open>C8: adding a handle that is present\<close>

text \<open>
  C8, as stated: \<open>addClient\<close> fails when the handle is already present, and leaves the
  existing record (its \<open>connectTime\<close>, metadata and heartbeat fields) unchanged. The code
  has no such check: \<open>addClient\<close> is one unconditional \<open>Map.set\<close>. In the example the
  handle \<open>a\<close> is present with \<open>connectTime\<close> 1, a username, two missed beats and a
  pending beat; after another \<open>addClient\<close> for \<open>a\<close> at time 5 the record of \<open>a\<close> is a
  fresh one.
\<close>

theorem C8_duplicate_add_overwrites:
  "getClient dup_before ''a'' = Some 0 \<and>
   deref dup_before 0 =
     \<lparr>id_client = ''a'', socket = ''a'', connectTime = 1,
      metadata = Some [(''username'', JStr ''ann'')], lastHeartbeat = Some 1,
      heartbeatMissed = 2, heartbeatPending = True\<rparr> \<and>
   getClient (addClient 5 ''a'' None dup_before) ''a'' = Some 1 \<and>
   deref (addClient 5 ''a'' None dup_before) 1 =
     \<lparr>id_client = ''a'', socket = ''a'', connectTime = 5,
      metadata = None, lastHeartbeat = Some 5,
      heartbeatMissed = 0, heartbeatPending = False\<rparr>"
  by (simp add: dup_before_def addClient_def initial_def getClient_def deref_def)

text \<open>
  C8, amended: \<open>addClient\<close> never fails. Whether or not the handle is present, the
  handle afterwards names a fresh record (\<open>connectTime\<close> now, the given metadata, no missed
  beat, no beat pending); a handle that was present keeps its place in the iteration
  order and a new one goes to the end; the records of all other handles, and every
  record object that existed, are as they were.
\<close>

theorem C8_addClient_replaces:
  "getClient (addClient now s md st) s = Some (length (heap st)) \<and>
   deref (addClient now s md st) (length (heap st)) =
     \<lparr>id_client = s, socket = s, connectTime = now, metadata = md, lastHeartbeat = Some now,
      heartbeatMissed = 0, heartbeatPending = False\<rparr> \<and>
   (\<forall>s'. s' \<noteq> s \<longrightarrow> getClient (addClient now s md st) s' = getClient st s') \<and>
   (\<forall>a. a < length (heap st) \<longrightarrow> deref (addClient now s md st) a = deref st a) \<and>
   map fst (clients (addClient now s md st)) =
     (if s \<in> fst ` set (clients st) then map fst (clients st) else map fst (clients st) @ [s])"
  by (simp add: addClient_def getClient_def deref_def update_conv' nth_append update_keys)

theorem C8_addClient_replaces_witness:
  "getClient (addClient 5 ''a'' None dup_before) ''a'' = Some 1 \<and>
   heartbeatMissed (deref (addClient 5 ''a'' None dup_before) 1) = 0 \<and>
   getClient (addClient 5 ''a'' None dup_before) ''b'' = getClient dup_before ''b'' \<and>
   deref (addClient 5 ''a'' None dup_before) 0 = deref dup_before 0 \<and>
   map fst (clients (addClient 5 ''a'' None dup_before)) = [''a'']"
proof -
  have len: "length (heap dup_before) = 1"
    by (simp add: dup_before_def addClient_def initial_def)
  have keys: "map fst (clients dup_before) = [''a'']"
    by (simp add: dup_before_def addClient_def initial_def)
  have mem: "''a'' \<in> fst ` set (clients dup_before)"
    by (simp add: dup_before_def addClient_def initial_def)
  show ?thesis
    using C8_addClient_replaces [of 5 "''a''" None dup_before] len keys mem by simp
qed

subsection \<open>C5: a patch that is too large\<close>

text \<open>
  C5: a \<open>system:setData\<close> with a patch (an object, as the handler demands of its payload)
  whose serialized text is longer than \<open>security.maxMessageSize\<close> is answered with a
  \<open>PAYLOAD_TOO_LARGE\<close> error to the sender, which quotes the size and the limit, and
  nothing is mutated: the state afterwards is the state before with that one error event
  added to what was sent, so the registry, every record with its metadata and
  \<open>lastUpdated\<close>, and all timers are as they were, and no \<open>system:followed\<close> is emitted.
  The numbers in the patch are safe integers, for which \<open>stringify\<close> is the text that
  \<open>JSON.stringify\<close> gives. (A payload that is no object is refused before its size is
  looked at, with \<open>INVALID_FORMAT\<close>.)
\<close>

theorem C5_oversized_patch_refused:
  assumes obj: "truthy d" "is_object d"
    and numbers: "numbers_ok d"
    and size: "length (stringify d) > maxMessageSize cfg"
  shows "setData cfg now s (Some d) st =
           st\<lparr>sent := sent st @
             [(s, ''system:error'',
               JObj [(''code'', JStr ''PAYLOAD_TOO_LARGE''),
                     (''message'',
                      JStr (''Data size ('' @ show_nat (length (stringify d))
                            @ '' bytes) exceeds maximum allowed size (''
                            @ show_nat (maxMessageSize cfg) @ '' bytes)''))])]\<rparr>"
  using obj size by (simp add: setData_def emit_def error_event_def too_large_message_def)

theorem C5_oversized_patch_refused_witness:
  "setData tiny 9 ''a'' (Some patch_a) dup_before =
     dup_before\<lparr>sent := sent dup_before @
       [(''a'', ''system:error'',
         JObj [(''code'', JStr ''PAYLOAD_TOO_LARGE''),
               (''message'',
                JStr ''Data size (7 bytes) exceeds maximum allowed size (5 bytes)'')])]\<rparr>"
proof -
  have size: "length (stringify patch_a) = 7"
    unfolding patch_a_def by code_simp
  have limit: "maxMessageSize tiny = 5"
    by (simp add: tiny_def defaults_def)
  have obj: "truthy patch_a" "is_object patch_a" "numbers_ok patch_a"
    by (simp_all add: patch_a_def)
  have big: "length (stringify patch_a) > maxMessageSize tiny"
    by (simp add: size limit)
  have digits: "show_nat 7 = ''7''" "show_nat 5 = ''5''"
    by code_simp+
  show ?thesis
    using C5_oversized_patch_refused [OF obj big, of 9 "''a''" dup_before]
    unfolding size limit digits by simp
qed

subsection \<open>C6: direct messages\<close>

text \<open>
  C6: a valid direct message (an object with a non-empty string \<open>target\<close> and a
  non-empty string \<open>type\<close>) from a registered sender with a username. If the lookup of
  the target finds nobody, which is the case exactly when no registered client has that
  username, the only effect is the negative acknowledgment to the sender: nothing is
  delivered, no record is created or changed. If it finds a client, that client has the
  username, exactly one \<open>system:direct\<close> is emitted, to that client's connection,
  followed by the positive acknowledgment to the sender, and nothing else changes; the
  delivery carries \<open>sender\<close> with the sender's username. In both cases the last
  statement of the handler logs the sender's username, after everything has been
  emitted: for a stored username that has no text that statement throws, which is all
  that \<open>uncaught\<close> records here.
\<close>

theorem C6_direct_message:
  assumes valid: "isValidDirectMessage (Some d)"
    and target: "get_prop d ''target'' = Some (JStr t)"
    and sender: "getClient st s = Some a"
    and username: "meta_prop (deref st a) ''username'' = Some u" "truthy u"
  shows "(case getClientByUsername st (JStr t) of
           None \<Rightarrow>
             (\<forall>b\<in>set (getAllClients st). \<not> has_username st (JStr t) b) \<and>
             direct now s (Some d) st =
               st\<lparr>sent := sent st @
                 [(s, ''system:directSent'',
                   JObj [(''success'', JBool False), (''target'', JStr t),
                         (''reason'', JStr (''User '' @ [CHR 0x22] @ t @ [CHR 0x22]
                                             @ '' is not online or does not exist'')),
                         (''timestamp'', JDate now)])],
                  uncaught := uncaught st \<or> \<not> textable u\<rparr>
         | Some b \<Rightarrow>
             b \<in> set (getAllClients st) \<and> has_username st (JStr t) b \<and>
             direct now s (Some d) st =
               st\<lparr>sent := sent st @
                 [(socket (deref st b), ''system:direct'', direct_event now s u (deref st a) d),
                  (s, ''system:directSent'',
                   JObj [(''success'', JBool True), (''target'', JStr t),
                         (''timestamp'', JDate now)])],
                  uncaught := uncaught st \<or> \<not> textable u\<rparr>) \<and>
         get_prop (direct_event now s u (deref st a) d) ''sender'' = Some (sender_of s u (deref st a)) \<and>
         get_prop (sender_of s u (deref st a)) ''username'' = Some u"
proof -
  from valid target have t: "t \<noteq> []"
    by (auto simp: isValidDirectMessage_def truthy_opt_def split: if_splits)
  have tgt: "or_else (get_prop d ''target'') JNull = JStr t"
    using target t by (simp add: or_else_def)
  show ?thesis
  proof (cases "getClientByUsername st (JStr t)")
    case None
    then show ?thesis
      using valid sender username tgt
      by (simp add: direct_def getClientByUsername_None [symmetric] emit_def logged_eq
          directFailed_event_def sender_of_username direct_event_sender)
  next
    case (Some b)
    then show ?thesis
      using valid sender username tgt getClientByUsername_Some [OF Some]
      by (simp add: direct_def emit_def logged_eq directSent_event_def sender_of_username
          direct_event_sender)
  qed
qed

theorem C6_direct_message_witness:
  "direct 6 ''a'' (Some chat_to_bob) two_users =
     two_users\<lparr>sent :=
       [(''b'', ''system:direct'',
         JObj [(''type'', JStr ''chat''), (''text'', JStr ''hi''),
               (''sender'', JObj [(''id'', JStr ''a''), (''username'', JStr ''ann''),
                                  (''profile'', JObj [])]),
               (''timestamp'', JDate 6)]),
        (''a'', ''system:directSent'',
         JObj [(''success'', JBool True), (''target'', JStr ''bob''), (''timestamp'', JDate 6)])]\<rparr>"
proof -
  have valid: "isValidDirectMessage (Some chat_to_bob)"
    by (simp add: isValidDirectMessage_def chat_to_bob_def truthy_opt_def or_else_def)
  have target: "get_prop chat_to_bob ''target'' = Some (JStr ''bob'')"
    by (simp add: chat_to_bob_def)
  have sender: "getClient two_users ''a'' = Some 0"
    by (simp add: two_users_def getClient_def)
  have username: "meta_prop (deref two_users 0) ''username'' = Some (JStr ''ann'')"
    by (simp add: two_users_def meta_prop_def deref_def)
  have found: "getClientByUsername two_users (JStr ''bob'') = Some 1"
    by (simp add: two_users_def getClientByUsername_def has_username_def meta_prop_def deref_def)
  have payload: "direct_event 6 ''a'' (JStr ''ann'') (deref two_users 0) chat_to_bob =
      JObj [(''type'', JStr ''chat''), (''text'', JStr ''hi''),
               (''sender'', JObj [(''id'', JStr ''a''), (''username'', JStr ''ann''),
                                  (''profile'', JObj [])]),
               (''timestamp'', JDate 6)]"
    by (simp add: direct_event_def chat_to_bob_def spread_def set_prop_def is_index_def
        sender_of_def meta_prop_def deref_def two_users_def or_else_def)
  have sock: "socket (deref two_users 1) = ''b''" "sent two_users = []"
    by (simp_all add: two_users_def deref_def)
  have "direct 6 ''a'' (Some chat_to_bob) two_users =
     two_users\<lparr>sent := sent two_users @
       [(socket (deref two_users 1), ''system:direct'',
         direct_event 6 ''a'' (JStr ''ann'') (deref two_users 0) chat_to_bob),
        (''a'', ''system:directSent'',
         JObj [(''success'', JBool True), (''target'', JStr ''bob''), (''timestamp'', JDate 6)])]\<rparr>"
    using C6_direct_message [OF valid target sender username, of 6] found by simp
  then show ?thesis
    unfolding payload sock by simp
qed

subsection \<open>C4: the merge of \<open>system:setData\<close>\<close>

text \<open>
  C4, on the input where it fails. The handler stores the merged metadata, then logs a
  truthy \<open>username\<close> of the patch in a template literal, and only then acknowledges. For
  the patch \<open>{"username":{"toString":0}}\<close> the conversion of the username to text throws:
  the record of the client carries the merged metadata, but no \<open>system:dataSet\<close> is
  emitted (nothing at all is), and the exception is caught by nobody.
\<close>

theorem C4_unprintable_username_not_acknowledged:
  "setData defaults 7 ''a'' (Some no_text) two_users =
     two_users
       \<lparr>heap := heap two_users @
          [\<lparr>id_client = ''a'', socket = ''a'', connectTime = 1,
            metadata = Some [(''username'', JObj [(''toString'', JNum 0)]),
                             (''lastUpdated'', JDate 7)],
            lastHeartbeat = Some 1, heartbeatMissed = 0, heartbeatPending = False\<rparr>],
        clients := [(''a'', 2), (''b'', 1)], uncaught := True\<rparr> \<and>
   sent (setData defaults 7 ''a'' (Some no_text) two_users) = [] \<and>
   truthy no_text \<and> is_object no_text \<and> distinct (keys_of no_text) \<and> numbers_ok no_text \<and>
   length (stringify no_text) = 27 \<and> maxMessageSize defaults = 102400"
proof -
  have size: "length (stringify no_text) = 27"
    unfolding no_text_def by code_simp
  have reg: "getClient two_users ''a'' = Some 0"
    by (simp add: two_users_def getClient_def)
  have md: "updatedMetadata 7 (currentMetadata two_users ''a'') no_text =
      [(''username'', JObj [(''toString'', JNum 0)]), (''lastUpdated'', JDate 7)]"
    by (simp add: updatedMetadata_def currentMetadata_def reg spread_def set_prop_def
        is_index_def no_text_def) (simp add: two_users_def deref_def)
  have 1: "setData defaults 7 ''a'' (Some no_text) two_users =
     two_users
       \<lparr>heap := heap two_users @
          [(deref two_users 0)
             \<lparr>metadata := Some [(''username'', JObj [(''toString'', JNum 0)]),
                                (''lastUpdated'', JDate 7)]\<rparr>],
        clients := AList.update ''a'' (length (heap two_users)) (clients two_users),
        uncaught := True\<rparr>"
    by (simp add: setData_def size defaults_def Let_def updateClient_Some [OF reg]
        spread_client_metadata md)
      (simp add: no_text_def truthy_opt_def or_else_def)
  have 2: "(deref two_users 0)
             \<lparr>metadata := Some [(''username'', JObj [(''toString'', JNum 0)]),
                                (''lastUpdated'', JDate 7)]\<rparr> =
          \<lparr>id_client = ''a'', socket = ''a'', connectTime = 1,
            metadata = Some [(''username'', JObj [(''toString'', JNum 0)]),
                             (''lastUpdated'', JDate 7)],
            lastHeartbeat = Some 1, heartbeatMissed = 0, heartbeatPending = False\<rparr>"
    "AList.update ''a'' (length (heap two_users)) (clients two_users) = [(''a'', 2), (''b'', 1)]"
    "sent two_users = []"
    by (simp_all add: two_users_def deref_def)
  have 3: "truthy no_text" "is_object no_text" "distinct (keys_of no_text)" "numbers_ok no_text"
    "maxMessageSize defaults = 102400"
    by (simp_all add: no_text_def keys_of_def defaults_def)
  from 1 have "sent (setData defaults 7 ''a'' (Some no_text) two_users) = []"
    by (simp add: 2)
  with 1 3 size show ?thesis
    unfolding 2 by (intro conjI)
qed

text \<open>
  C4, as the code has it: a \<open>system:setData\<close> of a registered client with a patch that is
  an object (each key once, its numbers safe integers) within the size limit. Afterwards
  the handle names a record that is the old one but for its metadata. In the new metadata
  \<open>lastUpdated\<close> is the time of the call, whatever the patch and the old metadata have
  under that key; every other key that the patch has carries the value of the patch, and
  every other key that the patch does not have carries what the old metadata had for it
  (nothing, if it had nothing). If the patch has a truthy \<open>username\<close> that has no text,
  that is all: the handler throws at its log line, and neither an acknowledgment nor
  anything else is emitted. Otherwise the first event emitted is the acknowledgment
  \<open>system:dataSet\<close> to the sender, whose \<open>updatedFields\<close> are the keys of the patch, in
  the order of the patch. The witness is the example of the claim: after
  \<open>setData({a:1})\<close> and then \<open>setData({b:2})\<close> the metadata holds \<open>a:1\<close> and \<open>b:2\<close>, and
  still the username, and both calls are acknowledged with their one key.
\<close>

theorem C4_setData_merges:
  assumes obj: "truthy d" "is_object d"
    and keys: "distinct (keys_of d)"
    and numbers: "numbers_ok d"
    and size: "length (stringify d) \<le> maxMessageSize cfg"
    and reg: "getClient st s = Some a"
  shows "\<exists>a' md.
     getClient (setData cfg now s (Some d) st) s = Some a' \<and>
     deref (setData cfg now s (Some d) st) a' = (deref st a)\<lparr>metadata := Some md\<rparr> \<and>
     map_of md ''lastUpdated'' = Some (JDate now) \<and>
     (\<forall>k. k \<noteq> ''lastUpdated'' \<longrightarrow>
        map_of md k =
          (case map_of (own_entries d) k of
             Some v \<Rightarrow> Some v
           | None \<Rightarrow> meta_prop (deref st a) k)) \<and>
     (if truthy_opt (get_prop d ''username'') \<and>
         \<not> textable (or_else (get_prop d ''username'') JNull)
      then setData cfg now s (Some d) st =
             st\<lparr>heap := heap st @ [(deref st a)\<lparr>metadata := Some md\<rparr>],
                clients := AList.update s (length (heap st)) (clients st),
                uncaught := True\<rparr>
      else take (Suc (length (sent st))) (sent (setData cfg now s (Some d) st)) =
             sent st @
               [(s, ''system:dataSet'',
                 JObj [(''success'', JBool True),
                       (''updatedFields'', JArr (map JStr (keys_of d))),
                       (''timestamp'', JDate now)])]) \<and>
     set (keys_of d) = {k. map_of (own_entries d) k \<noteq> None}"
proof -
  let ?cur = "currentMetadata st s"
  let ?md = "updatedMetadata now ?cur d"
  let ?st1 = "fst (updateClient s (no_fields\<lparr>part_metadata := Some (Some ?md)\<rparr>) st)"
  let ?st2 = "emit s ''system:dataSet'' (dataSet_event now d) ?st1"
  let ?st' = "setData cfg now s (Some d) st"
  let ?throws = "truthy_opt (get_prop d ''username'') \<and>
         \<not> textable (or_else (get_prop d ''username'') JNull)"
  have cur: "map_of ?cur k = meta_prop (deref st a) k" for k
    using reg by (simp add: currentMetadata_def meta_prop_def split: option.splits)
  have st1: "?st1 = st\<lparr>heap := heap st @ [(deref st a)\<lparr>metadata := Some ?md\<rparr>],
                          clients := AList.update s (length (heap st)) (clients st)\<rparr>"
    using reg by (simp add: updateClient_Some spread_client_metadata)
  have thrown: "?st' = ?st1\<lparr>uncaught := True\<rparr>" if ?throws
    using obj size that by (simp add: setData_def Let_def)
  have frame: "heap ?st' = heap ?st2 \<and> clients ?st' = clients ?st2 \<and>
               (\<exists>new. sent ?st' = sent ?st2 @ new)" if "\<not> ?throws"
  proof (cases "get_prop d ''following''")
    case None
    then show ?thesis using obj size that by (auto simp add: setData_def Let_def)
  next
    case (Some f)
    show ?thesis
    proof (cases f)
      case (JArr newF)
      have eq: "?st' = handleFollowingUpdate now s newF
                         (or_else (map_of ?cur ''following'') (JArr [])) ?st2"
        using obj size Some JArr that by (auto simp add: setData_def Let_def)
      let ?h = "handleFollowingUpdate now s newF (or_else (map_of ?cur ''following'') (JArr [])) ?st2"
      have "heap ?h = heap ?st2" "clients ?h = clients ?st2"
        by simp_all
      moreover have "\<exists>new. sent ?h = sent ?st2 @ new"
        using handleFollowingUpdate_sent by blast
      ultimately show ?thesis
        unfolding eq by blast
    qed (use obj size Some that in \<open>auto simp add: setData_def Let_def\<close>)
  qed
  have hc: "heap ?st' = heap ?st1" "clients ?st' = clients ?st1"
    using thrown frame by (cases ?throws; simp)+
  have 1: "getClient ?st' s = Some (length (heap st))"
    using hc by (simp add: getClient_def st1 update_conv')
  have 2: "deref ?st' (length (heap st)) = (deref st a)\<lparr>metadata := Some ?md\<rparr>"
    using hc by (simp add: deref_def st1)
  have 3: "map_of ?md ''lastUpdated'' = Some (JDate now)"
    by (simp add: map_of_updatedMetadata [OF keys])
  have 4: "\<forall>k. k \<noteq> ''lastUpdated'' \<longrightarrow>
        map_of ?md k =
          (case map_of (own_entries d) k of Some v \<Rightarrow> Some v | None \<Rightarrow> meta_prop (deref st a) k)"
    by (simp add: map_of_updatedMetadata [OF keys] cur split: option.splits)
  have 5: "if ?throws
      then ?st' = st\<lparr>heap := heap st @ [(deref st a)\<lparr>metadata := Some ?md\<rparr>],
                clients := AList.update s (length (heap st)) (clients st),
                uncaught := True\<rparr>
      else take (Suc (length (sent st))) (sent ?st') =
             sent st @ [(s, ''system:dataSet'', dataSet_event now d)]"
  proof (cases ?throws)
    case True
    then show ?thesis
      using thrown [OF True] by (simp add: st1)
  next
    case False
    from frame [OF False] obtain new where "sent ?st' = sent ?st2 @ new" by blast
    then show ?thesis
      unfolding if_not_P [OF False] by (simp add: st1)
  qed
  have 6: "set (keys_of d) = {k. map_of (own_entries d) k \<noteq> None}"
    by (auto simp: keys_of_def map_of_eq_None_iff)
  show ?thesis
    using 1 2 3 4 5 6 unfolding dataSet_event_def by blast
qed

theorem C4_setData_merges_witness:
  "\<exists>a'. getClient (setData defaults 8 ''a'' (Some patch_b)
                    (setData defaults 7 ''a'' (Some patch_a) two_users)) ''a'' = Some a' \<and>
     meta_prop (deref (setData defaults 8 ''a'' (Some patch_b)
                    (setData defaults 7 ''a'' (Some patch_a) two_users)) a') ''a'' = Some (JNum 1) \<and>
     meta_prop (deref (setData defaults 8 ''a'' (Some patch_b)
                    (setData defaults 7 ''a'' (Some patch_a) two_users)) a') ''b'' = Some (JNum 2) \<and>
     meta_prop (deref (setData defaults 8 ''a'' (Some patch_b)
                    (setData defaults 7 ''a'' (Some patch_a) two_users)) a') ''username'' = Some (JStr ''ann'') \<and>
     meta_prop (deref (setData defaults 8 ''a'' (Some patch_b)
                    (setData defaults 7 ''a'' (Some patch_a) two_users)) a') ''lastUpdated'' = Some (JDate 8) \<and>
     sent (setData defaults 7 ''a'' (Some patch_a) two_users) =
       [(''a'', ''system:dataSet'',
         JObj [(''success'', JBool True), (''updatedFields'', JArr [JStr ''a'']),
               (''timestamp'', JDate 7)])] \<and>
     take 2 (sent (setData defaults 8 ''a'' (Some patch_b)
                    (setData defaults 7 ''a'' (Some patch_a) two_users))) =
       [(''a'', ''system:dataSet'',
         JObj [(''success'', JBool True), (''updatedFields'', JArr [JStr ''a'']),
               (''timestamp'', JDate 7)]),
        (''a'', ''system:dataSet'',
         JObj [(''success'', JBool True), (''updatedFields'', JArr [JStr ''b'']),
               (''timestamp'', JDate 8)])]"
proof -
  let ?st1 = "setData defaults 7 ''a'' (Some patch_a) two_users"
  let ?st2 = "setData defaults 8 ''a'' (Some patch_b) ?st1"
  have size_a: "length (stringify patch_a) = 7" and size_b: "length (stringify patch_b) = 7"
    unfolding patch_a_def patch_b_def by code_simp+
  have limit: "maxMessageSize defaults = 102400"
    by (simp add: defaults_def)
  have obj_a: "truthy patch_a" "is_object patch_a" "distinct (keys_of patch_a)" "numbers_ok patch_a"
    and obj_b: "truthy patch_b" "is_object patch_b" "distinct (keys_of patch_b)" "numbers_ok patch_b"
    by (simp_all add: patch_a_def patch_b_def keys_of_def)
  have plain: "get_prop patch_a ''username'' = None" "get_prop patch_b ''username'' = None"
    "keys_of patch_a = [''a'']" "keys_of patch_b = [''b'']"
    "get_prop patch_a ''following'' = None"
    by (simp_all add: patch_a_def patch_b_def keys_of_def)
  have le_a: "length (stringify patch_a) \<le> maxMessageSize defaults"
    and le_b: "length (stringify patch_b) \<le> maxMessageSize defaults"
    by (simp_all add: size_a size_b limit)
  have reg0: "getClient two_users ''a'' = Some 0"
    by (simp add: two_users_def getClient_def)
  have name0: "meta_prop (deref two_users 0) ''username'' = Some (JStr ''ann'')"
    "sent two_users = []"
    by (simp_all add: two_users_def meta_prop_def deref_def)
  obtain a1 md1 where reg1: "getClient ?st1 ''a'' = Some a1"
    and rec1: "deref ?st1 a1 = (deref two_users 0)\<lparr>metadata := Some md1\<rparr>"
    and md1: "\<forall>k. k \<noteq> ''lastUpdated'' \<longrightarrow>
        map_of md1 k = (case map_of (own_entries patch_a) k of Some v \<Rightarrow> Some v
                        | None \<Rightarrow> meta_prop (deref two_users 0) k)"
    and ack1: "take (Suc (length (sent two_users))) (sent ?st1) =
        sent two_users @
          [(''a'', ''system:dataSet'',
            JObj [(''success'', JBool True),
                  (''updatedFields'', JArr (map JStr (keys_of patch_a))),
                  (''timestamp'', JDate 7)])]"
    using C4_setData_merges [OF obj_a le_a reg0, of 7] plain(1) by (auto simp: truthy_opt_def)
  have "map_of md1 ''a'' = Some (JNum 1)" "map_of md1 ''username'' = Some (JStr ''ann'')"
    using md1 name0 by (simp_all add: patch_a_def)
  then have old: "meta_prop (deref ?st1 a1) ''a'' = Some (JNum 1)"
    "meta_prop (deref ?st1 a1) ''username'' = Some (JStr ''ann'')"
    by (simp_all add: rec1 meta_prop_def)
  have only: "sent ?st1 =
       [(''a'', ''system:dataSet'',
         JObj [(''success'', JBool True), (''updatedFields'', JArr [JStr ''a'']),
               (''timestamp'', JDate 7)])]"
    using le_a
    by (simp add: setData_def Let_def obj_a plain truthy_opt_def dataSet_event_def
        updateClient_Some [OF reg0] name0)
  obtain a2 md2 where reg2: "getClient ?st2 ''a'' = Some a2"
    and rec2: "deref ?st2 a2 = (deref ?st1 a1)\<lparr>metadata := Some md2\<rparr>"
    and stamp2: "map_of md2 ''lastUpdated'' = Some (JDate 8)"
    and md2: "\<forall>k. k \<noteq> ''lastUpdated'' \<longrightarrow>
        map_of md2 k = (case map_of (own_entries patch_b) k of Some v \<Rightarrow> Some v
                        | None \<Rightarrow> meta_prop (deref ?st1 a1) k)"
    and ack2: "take (Suc (length (sent ?st1))) (sent ?st2) =
        sent ?st1 @
          [(''a'', ''system:dataSet'',
            JObj [(''success'', JBool True),
                  (''updatedFields'', JArr (map JStr (keys_of patch_b))),
                  (''timestamp'', JDate 8)])]"
    using C4_setData_merges [OF obj_b le_b reg1, of 8] plain(2) by (auto simp: truthy_opt_def)
  have "map_of md2 ''a'' = Some (JNum 1)" "map_of md2 ''b'' = Some (JNum 2)"
    "map_of md2 ''username'' = Some (JStr ''ann'')"
    using md2 old by (simp_all add: patch_b_def)
  then have "meta_prop (deref ?st2 a2) ''a'' = Some (JNum 1)"
    "meta_prop (deref ?st2 a2) ''b'' = Some (JNum 2)"
    "meta_prop (deref ?st2 a2) ''username'' = Some (JStr ''ann'')"
    "meta_prop (deref ?st2 a2) ''lastUpdated'' = Some (JDate 8)"
    using stamp2 by (simp_all add: rec2 meta_prop_def)
  moreover from ack2 have "take 2 (sent ?st2) =
       [(''a'', ''system:dataSet'',
         JObj [(''success'', JBool True), (''updatedFields'', JArr [JStr ''a'']),
               (''timestamp'', JDate 7)]),
        (''a'', ''system:dataSet'',
         JObj [(''success'', JBool True), (''updatedFields'', JArr [JStr ''b'']),
               (''timestamp'', JDate 8)])]"
    unfolding only plain by (simp add: numeral_2_eq_2)
  ultimately show ?thesis
    using reg2 only by blast
qed

subsection \<open>C7: notifications to followers\<close>



subsection \<open>C2: removal after \<open>maxMissed\<close> missed beats\<close>

text \<open>
  C2: in a well-formed registry, a client with a beat pending whose missed count reaches
  \<open>maxMissed\<close> with the next miss. The miss is counted by the periodic check, or by the
  deadline timer of the record. Either way the client is no longer registered afterwards
  and its record is not among \<open>getAllClients\<close>, and its connection, if open, has been
  closed by the server. No other client is touched by the removal: \<open>disconnectClient\<close>
  changes no record at all and deletes only the one handle; after the deadline timer
  every other handle names the same record with the same fields; and in the periodic
  check, what happens to any other client depends on its own record only (one that has
  not timed out stays registered, with its own miss counted if it had a beat pending and
  a new beat pending, and no other field changed).
\<close>

theorem C2_missed_beats_remove_client:
  assumes ok: "registry_ok st" and reg: "(k, a) \<in> set (clients st)"
    and out: "heartbeatPending (deref st a)" "maxMissed cfg \<le> heartbeatMissed (deref st a) + 1"
  shows "getClient (checkAllClientHeartbeats cfg now st) k = None \<and>
         a \<notin> set (getAllClients (checkAllClientHeartbeats cfg now st)) \<and>
         (k \<in> set (sockets st) \<longrightarrow> k \<in> set (closed (checkAllClientHeartbeats cfg now st))) \<and>
         (\<forall>k' b. (k', b) \<in> set (clients st) \<and> \<not> timed_out cfg (deref st b) \<longrightarrow>
            getClient (checkAllClientHeartbeats cfg now st) k' = Some b \<and>
            deref (checkAllClientHeartbeats cfg now st) b = checked (deref st b)) \<and>
         getClient (heartbeatDeadline cfg now a st) k = None \<and>
         a \<notin> set (getAllClients (heartbeatDeadline cfg now a st)) \<and>
         (k \<in> set (sockets st) \<longrightarrow> k \<in> set (closed (heartbeatDeadline cfg now a st))) \<and>
         (\<forall>k' b. (k', b) \<in> set (clients st) \<and> k' \<noteq> k \<longrightarrow>
            getClient (heartbeatDeadline cfg now a st) k' = Some b \<and>
            deref (heartbeatDeadline cfg now a st) b = deref st b) \<and>
         heap (disconnectClient now k st) = heap st \<and>
         clients (disconnectClient now k st) = AList.delete k (clients st)"
proof -
  let ?t = "checkAllClientHeartbeats cfg now st"
  let ?d = "heartbeatDeadline cfg now a st"
  have to: "timed_out cfg (heap st ! a)"
    using out by (simp add: timed_out_def deref_def)
  have dist: "distinct (map snd (clients st))"
    using ok by (simp add: registry_ok_def)
  have t: "?t = fold (checkClientHeartbeat cfg now) (map snd (clients st)) st"
    by (simp add: checkAllClientHeartbeats_def)
  note f = fold_check [OF ok dist, of cfg now, folded t]
  from f have okt: "registry_ok ?t" and sub: "set (clients ?t) \<subseteq> set (clients st)"
    and each: "\<And>k b. (k, b) \<in> set (clients st) \<Longrightarrow>
        tick_outcome cfg st ?t (b \<in> set (map snd (clients st))) k b"
    by auto
  have mem: "b \<in> set (map snd (clients st))" if "(k', b) \<in> set (clients st)" for k' b
    using that by force
  from each [OF reg] mem [OF reg] to
  have gone: "(k, a) \<notin> set (clients ?t)"
    and cl: "k \<in> set (sockets st) \<longrightarrow> k \<in> set (closed ?t)"
    by (simp_all add: tick_outcome_def)
  have 1: "getClient ?t k = None"
  proof (rule ccontr)
    assume "getClient ?t k \<noteq> None"
    then obtain x where x: "(k, x) \<in> set (clients ?t)"
      using registry_ok_getClient [OF okt] by auto
    with sub have "(k, x) \<in> set (clients st)" by blast
    with registry_ok_key_addr [OF ok reg] have "x = a" by blast
    with x gone show False by simp
  qed
  have 2: "a \<notin> set (getAllClients ?t)"
  proof
    assume "a \<in> set (getAllClients ?t)"
    then obtain k' where x: "(k', a) \<in> set (clients ?t)"
      by (auto simp: getAllClients_def)
    with sub have "(k', a) \<in> set (clients st)" by blast
    with registry_ok_addr_key [OF ok reg] have "k' = k" by blast
    with x gone show False by simp
  qed
  have 4: "getClient ?t k' = Some b \<and> deref ?t b = checked (deref st b)"
    if "(k', b) \<in> set (clients st) \<and> \<not> timed_out cfg (deref st b)" for k' b
  proof -
    from that have r: "(k', b) \<in> set (clients st)" and n: "\<not> timed_out cfg (heap st ! b)"
      by (simp_all add: deref_def)
    from each [OF r] mem [OF r] n
    have "(k', b) \<in> set (clients ?t)" "heap ?t ! b = checked (heap st ! b)"
      by (simp_all add: tick_outcome_def)
    then show ?thesis
      using registry_ok_getClient [OF okt] by (simp add: deref_def)
  qed
  note d = heartbeatDeadline_out [OF ok reg to, of now]
  have okd: "registry_ok ?d" by (rule registry_ok_heartbeatDeadline [OF ok])
  have 5: "getClient ?d k = None"
    by (simp add: getClient_def d(1) delete_conv')
  have 6: "a \<notin> set (getAllClients ?d)"
  proof
    assume "a \<in> set (getAllClients ?d)"
    then obtain k' where x: "(k', a) \<in> set (clients ?d)"
      by (auto simp: getAllClients_def)
    then have "(k', a) \<in> set (clients st)" "k' \<noteq> k" by (simp_all add: d(1) in_delete)
    with registry_ok_addr_key [OF ok reg] show False by blast
  qed
  have 7: "k \<in> set (sockets st) \<longrightarrow> k \<in> set (closed ?d)"
    by (simp add: d(3))
  have 8: "getClient ?d k' = Some b \<and> deref ?d b = deref st b"
    if "(k', b) \<in> set (clients st) \<and> k' \<noteq> k" for k' b
  proof -
    from that have r: "(k', b) \<in> set (clients st)" and n: "k' \<noteq> k" by simp_all
    have "b \<noteq> a" using registry_ok_addr_key [OF ok reg] r n by blast
    then have "deref ?d b = deref st b" by (simp add: deref_def d(2))
    moreover have "getClient ?d k' = Some b"
      using r n registry_ok_getClient [OF ok] by (simp add: getClient_def d(1) delete_conv')
    ultimately show ?thesis by simp
  qed
  have 9: "heap (disconnectClient now k st) = heap st" by simp
  have 10: "clients (disconnectClient now k st) = AList.delete k (clients st)"
    by (rule disconnectClient_clients_ok [OF ok])
  show ?thesis
    using 1 2 cl 4 5 6 7 8 9 10 by blast
qed

theorem C2_missed_beats_remove_client_witness:
  "getClient (checkAllClientHeartbeats defaults 9 late) ''a'' = None \<and>
   0 \<notin> set (getAllClients (checkAllClientHeartbeats defaults 9 late)) \<and>
   ''a'' \<in> set (closed (checkAllClientHeartbeats defaults 9 late)) \<and>
   getClient (checkAllClientHeartbeats defaults 9 late) ''b'' = Some 1 \<and>
   deref (checkAllClientHeartbeats defaults 9 late) 1 =
     (deref late 1)\<lparr>heartbeatMissed := 1, heartbeatPending := True\<rparr> \<and>
   getClient (heartbeatDeadline defaults 9 0 late) ''a'' = None \<and>
   ''a'' \<in> set (closed (heartbeatDeadline defaults 9 0 late)) \<and>
   getClient (heartbeatDeadline defaults 9 0 late) ''b'' = Some 1 \<and>
   deref (heartbeatDeadline defaults 9 0 late) 1 = deref late 1"
proof -
  have ok: "registry_ok late"
    by (simp add: registry_ok_def late_def)
  have reg: "(''a'', 0) \<in> set (clients late)" and regb: "(''b'', 1) \<in> set (clients late)"
    by (simp_all add: late_def)
  have out: "heartbeatPending (deref late 0)"
    "maxMissed defaults \<le> heartbeatMissed (deref late 0) + 1"
    by (simp_all add: late_def deref_def defaults_def)
  have b: "\<not> timed_out defaults (deref late 1)"
    "checked (deref late 1) = (deref late 1)\<lparr>heartbeatMissed := 1, heartbeatPending := True\<rparr>"
    by (simp_all add: timed_out_def checked_def missed_one_def late_def deref_def defaults_def)
  have open_a: "''a'' \<in> set (sockets late)"
    by (simp add: late_def)
  note c2 = C2_missed_beats_remove_client [OF ok reg out, of 9]
  have "getClient (checkAllClientHeartbeats defaults 9 late) ''b'' = Some 1 \<and>
        deref (checkAllClientHeartbeats defaults 9 late) 1 = checked (deref late 1)"
    using c2 regb b(1) by blast
  moreover have "getClient (heartbeatDeadline defaults 9 0 late) ''b'' = Some 1 \<and>
        deref (heartbeatDeadline defaults 9 0 late) 1 = deref late 1"
    using c2 regb by blast
  ultimately show ?thesis
    using c2 open_a unfolding b(2) by blast
qed

subsection \<open>C1: acknowledgments of heartbeats\<close>

text \<open>
  C1, as stated: the missed count is reset only by an acknowledgment whose beat id is
  the pending one, and an acknowledgment with another id is ignored and leaves the
  pending flag and the missed count as they are. The code keeps no pending beat id: the
  id goes out with \<open>system:heartbeat\<close> and is stored nowhere, and \<open>recordHeartbeat\<close>
  takes the connection only. In the example the client was sent the beat \<open>100\<close>, which
  is pending with one miss; an acknowledgment with the id \<open>7\<close> clears the pending flag
  and resets the count.
\<close>

theorem C1_stale_ack_is_taken:
  "sent beat_missed =
     [(''a'', ''system:heartbeat'', JObj [(''id'', JStr ''100''), (''timestamp'', JDate 100)])] \<and>
   heartbeatPending (deref beat_missed 0) \<and>
   heartbeatMissed (deref beat_missed 0) = 1 \<and>
   step defaults (150, Message ''a'' ''system:heartbeat-ack'' (Some (JObj [(''id'', JStr ''7'')])))
     beat_missed =
     beat_missed\<lparr>heap :=
       [\<lparr>id_client = ''a'', socket = ''a'', connectTime = 1, metadata = None,
         lastHeartbeat = Some 150, heartbeatMissed = 0, heartbeatPending = False\<rparr>]\<rparr>"
  by (simp add: beat_missed_def deref_def step_def onMessage_def heartbeatAck_def
      heartbeatAck_system_def heartbeatAck_setup_def truthy_opt_def recordHeartbeat_def
      getClient_def assign_def recorded_def defaults_def)

text \<open>
  C1, amended: every \<open>system:heartbeat-ack\<close> of a registered client is taken, whatever
  payload it carries (any beat id, or none): it clears the pending flag of the client's
  record and resets the missed count to 0 when the count is above 0 and below
  \<open>maxMissed\<close>. And the count of a client goes down only so: after any other event (but a
  new connection under the same handle, which the transport does not make) the count of a
  client that is still registered is at least what it was.
\<close>

theorem C1_ack_resets_whatever_the_id:
  assumes ok: "registry_ok st" and reg: "getClient st s = Some a"
    and "open": "s \<in> set (sockets st)" and alive: "\<not> uncaught st"
  shows "(\<forall>data. step cfg (now, Message s ''system:heartbeat-ack'' data) st =
                  assign a (recorded cfg now) st) \<and>
         \<not> heartbeatPending (recorded cfg now (deref st a)) \<and>
         heartbeatMissed (recorded cfg now (deref st a)) =
           (if 0 < heartbeatMissed (deref st a) \<and> heartbeatMissed (deref st a) < maxMissed cfg
            then 0 else heartbeatMissed (deref st a)) \<and>
         (\<forall>t e a'. (\<forall>data. e \<noteq> Message s ''system:heartbeat-ack'' data) \<and> e \<noteq> Connect s \<and>
                   getClient (step cfg (t, e) st) s = Some a' \<longrightarrow>
            heartbeatMissed (deref st a) \<le> heartbeatMissed (deref (step cfg (t, e) st) a'))"
proof -
  have 1: "step cfg (now, Message s ''system:heartbeat-ack'' data) st =
           assign a (recorded cfg now) st" for data
    using reg "open" alive by (simp add: step_def onMessage_def heartbeatAck_eq)
  have 2: "\<not> heartbeatPending (recorded cfg now (deref st a))"
    by (simp add: recorded_def Let_def)
  have 3: "heartbeatMissed (recorded cfg now (deref st a)) =
           (if 0 < heartbeatMissed (deref st a) \<and> heartbeatMissed (deref st a) < maxMissed cfg
            then 0 else heartbeatMissed (deref st a))"
    by (simp add: recorded_def Let_def)
  from reg ok have r: "(s, a) \<in> set (clients st)"
    by (simp add: registry_ok_getClient)
  have 4: "heartbeatMissed (deref st a) \<le> heartbeatMissed (deref (step cfg (t, e) st) a')"
    if "(\<forall>data. e \<noteq> Message s ''system:heartbeat-ack'' data) \<and> e \<noteq> Connect s \<and>
        getClient (step cfg (t, e) st) s = Some a'" for t e a'
  proof -
    from that have g: "getClient (handle cfg t e st) s = Some a'"
      using alive by (simp add: step_def)
    from that missed_only_grows [OF ok r _ _ g] show ?thesis
      using alive by (simp add: step_def deref_def)
  qed
  show ?thesis
    using 1 2 3 4 by blast
qed

theorem C1_ack_resets_whatever_the_id_witness:
  "step defaults (150, Message ''a'' ''system:heartbeat-ack'' None) beat_missed =
     assign 0 (recorded defaults 150) beat_missed \<and>
   step defaults (150, Message ''a'' ''system:heartbeat-ack'' (Some (JObj [(''id'', JStr ''7'')])))
     beat_missed = assign 0 (recorded defaults 150) beat_missed \<and>
   heartbeatMissed (recorded defaults 150 (deref beat_missed 0)) = 0 \<and>
   1 \<le> heartbeatMissed (deref (step defaults (160, HeartbeatInterval) beat_missed) 0)"
proof -
  have ok: "registry_ok beat_missed"
    by (simp add: registry_ok_def beat_missed_def)
  have reg: "getClient beat_missed ''a'' = Some 0"
    and op: "''a'' \<in> set (sockets beat_missed)" and alive: "\<not> uncaught beat_missed"
    and m: "heartbeatMissed (deref beat_missed 0) = 1" "maxMissed defaults = 5"
    by (simp_all add: beat_missed_def getClient_def deref_def defaults_def)
  have after: "getClient (step defaults (160, HeartbeatInterval) beat_missed) ''a'' = Some 0"
    by (simp add: step_def checkAllClientHeartbeats_def checkClientHeartbeat_def
        beat_missed_def defaults_def deref_def assign_def missed_one_def getClient_def)
  note c1 = C1_ack_resets_whatever_the_id [OF ok reg op alive, of defaults 150]
  from c1 after have "heartbeatMissed (deref beat_missed 0)
      \<le> heartbeatMissed (deref (step defaults (160, HeartbeatInterval) beat_missed) 0)"
    by blast
  then show ?thesis
    using c1 by (simp add: m)
qed

subsection \<open>C3: the periodic check and clients with a beat pending\<close>

text \<open>
  C3 says that the periodic check sends a new beat only to the clients that have no beat
  pending. In \<open>checkAllClientHeartbeats\<close> the branch for a client with a beat pending,
  under the comment \<open>Skip clients with pending heartbeats\<close>, counts a miss and returns
  only when the client is disconnected; otherwise it falls through to \<open>sendHeartbeat\<close>.
  Here the one client has the beat \<open>100\<close> pending and one miss: the check at time 160
  counts a second miss and sends the beat \<open>160\<close> to it.
\<close>

theorem C3_tick_beats_a_pending_client:
  "heartbeatPending (deref beat_missed 0) \<and>
   step defaults (160, HeartbeatInterval) beat_missed =
     beat_missed
       \<lparr>heap := [\<lparr>id_client = ''a'', socket = ''a'', connectTime = 1, metadata = None,
                  lastHeartbeat = Some 1, heartbeatMissed = 2, heartbeatPending = True\<rparr>],
        sent := sent beat_missed @
          [(''a'', ''system:heartbeat'', JObj [(''id'', JStr ''160''), (''timestamp'', JDate 160)])],
        beatTimers := [0]\<rparr>"
  by (simp add: step_def checkAllClientHeartbeats_def checkClientHeartbeat_def
      beat_missed_def defaults_def deref_def assign_def missed_one_def sendHeartbeat_def
      emit_def show_nat_160)

subsection \<open>C10: lookup by username among clients of the same name\<close>

text \<open>
  C10: in the state after any sequence of events from the start of the hub, whenever
  \<open>getClientByUsername\<close> finds a record, that record is registered, has the username,
  and its handle was registered before the handle of every other registered record with
  that username: the registry lists the handles in the order in which they were
  registered (a \<open>Map\<close> keeps insertion order, \<open>updateClient\<close> keeps the place of a handle,
  a removed handle that comes back goes to the end), and the lookup takes the first match.
  In the witness \<open>b\<close> takes the username before \<open>a\<close> does, and the lookup still finds the
  record of \<open>a\<close>, which connected first.
\<close>

theorem C10_earliest_added_wins:
  assumes "getClientByUsername (run cfg es initial) u = Some a"
  shows "\<exists>k. (k, a) \<in> set (clients (run cfg es initial)) \<and>
             has_username (run cfg es initial) u a \<and>
             (\<forall>k' b. (k', b) \<in> set (clients (run cfg es initial)) \<and>
                      has_username (run cfg es initial) u b \<and> k' \<noteq> k \<longrightarrow>
                added_at cfg (rev es) k < added_at cfg (rev es) k')"
  using find_first_of_sorted [OF conjunct1 [OF added_in_order]] assms
  unfolding getClientByUsername_def by blast

theorem C10_earliest_added_wins_witness:
  "getClientByUsername (run defaults same_name initial) (JStr ''sam'') = Some 3 \<and>
   clients (run defaults same_name initial) = [(''a'', 3), (''b'', 2)] \<and>
   has_username (run defaults same_name initial) (JStr ''sam'') 2 \<and>
   added_at defaults (rev same_name) ''a'' = 1 \<and>
   added_at defaults (rev same_name) ''b'' = 2 \<and>
   added_at defaults (rev same_name) ''a'' < added_at defaults (rev same_name) ''b''"
proof -
  have has: "has_username w4 (JStr ''sam'') 2" "has_username w4 (JStr ''sam'') 3"
    by (simp_all add: has_username_def deref_def w4)
  have found: "getClientByUsername (run defaults same_name initial) (JStr ''sam'') = Some 3"
    by (simp add: run_same_name getClientByUsername_def w4 has)
  have a: "added_at defaults (rev same_name) ''a'' = 1"
    and b: "added_at defaults (rev same_name) ''b'' = 2"
    by (simp_all add: same_name_def run_same_name w1 w2 w3 initial_def [THEN arg_cong [where f = clients]])
  from C10_earliest_added_wins [OF found]
  obtain k where k: "(k, 3) \<in> set (clients (run defaults same_name initial))"
    and first: "\<forall>k' b. (k', b) \<in> set (clients (run defaults same_name initial)) \<and>
        has_username (run defaults same_name initial) (JStr ''sam'') b \<and> k' \<noteq> k \<longrightarrow>
        added_at defaults (rev same_name) k < added_at defaults (rev same_name) k'"
    by blast
  from k have "k = ''a''" by (simp add: run_same_name w4)
  with first have "added_at defaults (rev same_name) ''a'' < added_at defaults (rev same_name) ''b''"
    using has(1) by (simp add: run_same_name w4)
  with found a b has(1) show ?thesis
    by (simp add: run_same_name w4)
qed

subsection \<open>C9: timer callbacks and clients that are gone\<close>




end
